theory Spec2Isabelle
  imports Main "HOL-Library.Extended_Nat"
begin

section \<open>Data model\<close>

text \<open>
  The three modules (robot_vacuum_cleaner.py, warehouse_management.py,
  investment_management.py) declare the same classes \<open>BinaryTreeNode\<close> and \<open>Node\<close>.
  A \<open>BinaryTreeNode\<close> carries a payload and two optional children. A value of this
  datatype is a finite tree without cycles. The type of the payload is a parameter: the
  two modules that search for a goal value compare payloads with \<open>==\<close> only and are taken
  at integer payloads; \<open>depth_limited_search_max\<close> compares payloads with \<open>-math.inf\<close>, and
  there the payload is a \<open>number\<close>.
\<close>

datatype 'v BinaryTreeNode =
  BinaryTreeNode (node_value: 'v) (left: "'v BinaryTreeNode option")
                 (right: "'v BinaryTreeNode option")

text \<open>
  A Python number as investment_management.py compares it: an integer, or one of the float
  values \<open>-math.inf\<close>, \<open>math.inf\<close> and \<open>math.nan\<close>. (Integers stand for the finite
  numbers; finite floats with a fractional part are ordered like them and are left out.)
\<close>

datatype number = MinusInf | Number int | PlusInf | NaN

text \<open>
  The \<open>state\<close> attribute of a search node is dynamically typed. In these programs it holds
  a tree node, the string of a sentinel (\<open>"failure"\<close>, \<open>"cutoff"\<close>), or \<open>None\<close> when the
  problem was built without an initial state.
\<close>

datatype 'v state_value = Tree "'v BinaryTreeNode" | Str string | PyNone

text \<open>
  \<open>Node(state, parent=None, action=None, path_cost=0.0)\<close>. The path cost is a float that
  only ever holds 0, a sum of ones, or \<open>math.inf\<close>; these are the extended naturals.
\<close>

datatype 'v Node =
  Node (state: "'v state_value") (parent: "'v Node option") (action: "'v BinaryTreeNode option")
       (path_cost: enat)

text \<open>Reading an attribute that the object does not have raises \<open>AttributeError\<close>.\<close>

datatype error = AttributeError

text \<open>
  \<open>Problem.__init__\<close>: investment_management.py stores \<open>initial\<close> only; the other two
  modules store \<open>initial\<close> and \<open>goal\<close> (both default to \<open>None\<close>).
\<close>

record 'v InvestmentProblem =
  initial :: "'v state_value"

record 'v Problem = "'v InvestmentProblem" +
  goal :: "'v option"

text \<open>
  \<open>Node.depth\<close>: the length of the parent chain. (The method is recursive; the recursion
  limit of the interpreter is not modelled.)
\<close>

fun depth :: "'v Node \<Rightarrow> nat" where
  "depth (Node s None a c) = 0"
| "depth (Node s (Some p) a c) = 1 + depth p"

text \<open>The module-level sentinels \<open>failure\<close> and \<open>cutoff\<close>.\<close>

definition failure :: "'v Node" where
  "failure = Node (Str ''failure'') None None \<infinity>"

definition cutoff :: "'v Node" where
  "cutoff = Node (Str ''cutoff'') None None \<infinity>"

section \<open>Problem operations\<close>

text \<open>\<open>Problem.is_goal\<close>: \<open>state.value == self.goal\<close>.\<close>

definition is_goal :: "int Problem \<Rightarrow> int state_value \<Rightarrow> error + bool" where
  "is_goal problem s =
     (case s of
        Tree t \<Rightarrow> Inr (Some (node_value t) = goal problem)
      | _ \<Rightarrow> Inl AttributeError)"

text \<open>
  Truth value of \<open>state.left\<close> / \<open>state.right\<close> as an \<open>if\<close> condition:
  \<open>None\<close> is false, and a \<open>BinaryTreeNode\<close> (a class with neither \<open>__bool__\<close> nor
  \<open>__len__\<close>) is true.
\<close>

definition truthy :: "'v BinaryTreeNode option \<Rightarrow> bool" where
  "truthy x = (case x of None \<Rightarrow> False | Some _ \<Rightarrow> True)"

text \<open>\<open>RoomNavigationProblem.actions\<close> (robot_vacuum_cleaner.py): \<open>if state.left:\<close>.\<close>

definition RoomNavigationProblem_actions ::
  "int Problem \<Rightarrow> int state_value \<Rightarrow> error + int BinaryTreeNode list" where
  "RoomNavigationProblem_actions problem s =
     (case s of
        Tree t \<Rightarrow>
          Inr ((if truthy (left t) then [the (left t)] else []) @
               (if truthy (right t) then [the (right t)] else []))
      | _ \<Rightarrow> Inl AttributeError)"

text \<open>\<open>WarehouseProblem.actions\<close> (warehouse_management.py): \<open>if state.left is not None:\<close>.\<close>

definition WarehouseProblem_actions ::
  "int Problem \<Rightarrow> int state_value \<Rightarrow> error + int BinaryTreeNode list" where
  "WarehouseProblem_actions problem s =
     (case s of
        Tree t \<Rightarrow>
          Inr ((if left t \<noteq> None then [the (left t)] else []) @
               (if right t \<noteq> None then [the (right t)] else []))
      | _ \<Rightarrow> Inl AttributeError)"

text \<open>\<open>InvestmentProblem.actions\<close> (investment_management.py), the same test.\<close>

definition InvestmentProblem_actions ::
  "(number, 'a) InvestmentProblem_scheme \<Rightarrow> number state_value
     \<Rightarrow> error + number BinaryTreeNode list" where
  "InvestmentProblem_actions problem s =
     (case s of
        Tree t \<Rightarrow>
          Inr ((if left t \<noteq> None then [the (left t)] else []) @
               (if right t \<noteq> None then [the (right t)] else []))
      | _ \<Rightarrow> Inl AttributeError)"

text \<open>\<open>result(self, state, action)\<close> returns \<open>action\<close>, in all three modules.\<close>

definition problem_result :: "'v state_value \<Rightarrow> 'v BinaryTreeNode \<Rightarrow> 'v state_value" where
  "problem_result s a = Tree a"

section \<open>Expansion\<close>

text \<open>
  \<open>expand\<close> is a generator that the callers consume at once in a \<open>for\<close> loop; the model
  returns the list of the nodes it yields. robot_vacuum_cleaner.py and
  investment_management.py build \<open>Node(state=s_next, parent=node, action=action)\<close>, so
  the path cost is the default; warehouse_management.py passes
  \<open>path_cost=node.path_cost + 1\<close>.
\<close>

definition robot_expand :: "int Problem \<Rightarrow> int Node \<Rightarrow> error + int Node list" where
  "robot_expand problem node =
     (case RoomNavigationProblem_actions problem (state node) of
        Inl e \<Rightarrow> Inl e
      | Inr acts \<Rightarrow>
          Inr (map (\<lambda>a. Node (problem_result (state node) a) (Some node) (Some a) 0) acts))"

definition warehouse_expand :: "int Problem \<Rightarrow> int Node \<Rightarrow> error + int Node list" where
  "warehouse_expand problem node =
     (case WarehouseProblem_actions problem (state node) of
        Inl e \<Rightarrow> Inl e
      | Inr acts \<Rightarrow>
          Inr (map (\<lambda>a. Node (problem_result (state node) a) (Some node) (Some a)
                          (path_cost node + 1)) acts))"

definition investment_expand ::
  "(number, 'a) InvestmentProblem_scheme \<Rightarrow> number Node \<Rightarrow> error + number Node list" where
  "investment_expand problem node =
     (case InvestmentProblem_actions problem (state node) of
        Inl e \<Rightarrow> Inl e
      | Inr acts \<Rightarrow>
          Inr (map (\<lambda>a. Node (problem_result (state node) a) (Some node) (Some a) 0) acts))"

section \<open>Depth-limited search\<close>

text \<open>
  The \<open>while frontier:\<close> loop of \<open>depth_limited_search\<close>. The text of the function is the
  same in robot_vacuum_cleaner.py and warehouse_management.py; each module calls its own
  \<open>expand\<close>, which is the first argument here. The frontier is the Python list:
  \<open>pop()\<close> takes the last element and \<open>append\<close> adds at the end. The loop is a partial
  function: \<open>None\<close> means that it does not return.
\<close>

partial_function (option) depth_limited_search_loop ::
  "(int Problem \<Rightarrow> int Node \<Rightarrow> error + int Node list) \<Rightarrow> int Problem \<Rightarrow> int
     \<Rightarrow> int Node list \<Rightarrow> int Node \<Rightarrow> (error + int Node) option"
where
  "depth_limited_search_loop expand problem limit frontier result =
     (if frontier = [] then Some (Inr result)
      else
        let node = last frontier; frontier' = butlast frontier in
        case is_goal problem (state node) of
          Inl e \<Rightarrow> Some (Inl e)
        | Inr found \<Rightarrow>
            if found then Some (Inr node)
            else if int (depth node) \<ge> limit
              then depth_limited_search_loop expand problem limit frontier' cutoff
            else (case expand problem node of
                    Inl e \<Rightarrow> Some (Inl e)
                  | Inr children \<Rightarrow>
                      depth_limited_search_loop expand problem limit
                        (frontier' @ children) result))"

definition robot_depth_limited_search ::
  "int Problem \<Rightarrow> int \<Rightarrow> (error + int Node) option" where
  "robot_depth_limited_search problem limit =
     depth_limited_search_loop robot_expand problem limit
       [Node (initial problem) None None 0] failure"

definition warehouse_depth_limited_search ::
  "int Problem \<Rightarrow> int \<Rightarrow> (error + int Node) option" where
  "warehouse_depth_limited_search problem limit =
     depth_limited_search_loop warehouse_expand problem limit
       [Node (initial problem) None None 0] failure"

text \<open>
  The same loop with two ghost lists that the code does not have: every node appended to
  the frontier (\<open>pushed\<close>) and every node popped from it (\<open>popped\<close>), in order. They do
  not influence the run; \<open>robot_trace_outcome\<close> and \<open>warehouse_trace_outcome\<close> below
  show that the outcome is the one of the loop above.
\<close>

partial_function (option) depth_limited_search_trace ::
  "(int Problem \<Rightarrow> int Node \<Rightarrow> error + int Node list) \<Rightarrow> int Problem \<Rightarrow> int
     \<Rightarrow> int Node list \<Rightarrow> int Node \<Rightarrow> int Node list \<Rightarrow> int Node list
     \<Rightarrow> ((error + int Node) \<times> int Node list \<times> int Node list) option"
where
  "depth_limited_search_trace expand problem limit frontier result pushed popped =
     (if frontier = [] then Some (Inr result, pushed, popped)
      else
        let node = last frontier; frontier' = butlast frontier; popped' = popped @ [node] in
        case is_goal problem (state node) of
          Inl e \<Rightarrow> Some (Inl e, pushed, popped')
        | Inr found \<Rightarrow>
            if found then Some (Inr node, pushed, popped')
            else if int (depth node) \<ge> limit
              then depth_limited_search_trace expand problem limit frontier' cutoff
                     pushed popped'
            else (case expand problem node of
                    Inl e \<Rightarrow> Some (Inl e, pushed, popped')
                  | Inr children \<Rightarrow>
                      depth_limited_search_trace expand problem limit
                        (frontier' @ children) result (pushed @ children) popped'))"

definition robot_search_trace ::
  "int Problem \<Rightarrow> int \<Rightarrow> ((error + int Node) \<times> int Node list \<times> int Node list) option"
where
  "robot_search_trace problem limit =
     depth_limited_search_trace robot_expand problem limit
       [Node (initial problem) None None 0] failure [Node (initial problem) None None 0] []"

definition warehouse_search_trace ::
  "int Problem \<Rightarrow> int \<Rightarrow> ((error + int Node) \<times> int Node list \<times> int Node list) option"
where
  "warehouse_search_trace problem limit =
     depth_limited_search_trace warehouse_expand problem limit
       [Node (initial problem) None None 0] failure [Node (initial problem) None None 0] []"

section \<open>Depth-limited maximum\<close>

text \<open>
  \<open>node.state.value > max_value\<close>, as Python compares numbers: no comparison with
  \<open>math.nan\<close> holds, nothing is greater than \<open>math.inf\<close>, and \<open>-math.inf\<close> is greater than
  nothing.
\<close>

fun greater :: "number \<Rightarrow> number \<Rightarrow> bool" where
  "greater NaN m = False"
| "greater v NaN = False"
| "greater MinusInf m = False"
| "greater v MinusInf = True"
| "greater v PlusInf = False"
| "greater PlusInf m = True"
| "greater (Number v) (Number m) = (m < v)"

text \<open>\<open>node.state.value\<close>.\<close>

definition state_payload :: "number state_value \<Rightarrow> error + number" where
  "state_payload s = (case s of Tree t \<Rightarrow> Inr (node_value t) | _ \<Rightarrow> Inl AttributeError)"

partial_function (option) depth_limited_search_max_loop ::
  "(number, 'a) InvestmentProblem_scheme \<Rightarrow> int \<Rightarrow> number Node list \<Rightarrow> number
     \<Rightarrow> (error + number) option"
where
  "depth_limited_search_max_loop problem limit frontier max_value =
     (if frontier = [] then Some (Inr max_value)
      else
        let node = last frontier; frontier' = butlast frontier in
        case state_payload (state node) of
          Inl e \<Rightarrow> Some (Inl e)
        | Inr v \<Rightarrow>
            let max_value' = (if greater v max_value then v else max_value) in
            if int (depth node) < limit
              then (case investment_expand problem node of
                      Inl e \<Rightarrow> Some (Inl e)
                    | Inr children \<Rightarrow>
                        depth_limited_search_max_loop problem limit
                          (frontier' @ children) max_value')
            else depth_limited_search_max_loop problem limit frontier' max_value')"

text \<open>
  \<open>depth_limited_search_max\<close>: \<open>None\<close> for a problem without initial state, otherwise the
  loop, which starts with \<open>max_value = -math.inf\<close>, and
  \<open>None if max_value == -math.inf else max_value\<close>.
\<close>

definition depth_limited_search_max ::
  "(number, 'a) InvestmentProblem_scheme \<Rightarrow> int \<Rightarrow> (error + number option) option" where
  "depth_limited_search_max problem limit =
     (if initial problem = PyNone then Some (Inr None)
      else
        case depth_limited_search_max_loop problem limit
               [Node (initial problem) None None 0] MinusInf of
          None \<Rightarrow> None
        | Some (Inl e) \<Rightarrow> Some (Inl e)
        | Some (Inr max_value) \<Rightarrow>
            Some (Inr (if max_value = MinusInf then None else Some max_value)))"

text \<open>The loop of \<open>depth_limited_search_max\<close> with the ghost list of the pushed nodes.\<close>

partial_function (option) depth_limited_search_max_trace ::
  "(number, 'a) InvestmentProblem_scheme \<Rightarrow> int \<Rightarrow> number Node list \<Rightarrow> number
     \<Rightarrow> number Node list \<Rightarrow> ((error + number) \<times> number Node list) option"
where
  "depth_limited_search_max_trace problem limit frontier max_value pushed =
     (if frontier = [] then Some (Inr max_value, pushed)
      else
        let node = last frontier; frontier' = butlast frontier in
        case state_payload (state node) of
          Inl e \<Rightarrow> Some (Inl e, pushed)
        | Inr v \<Rightarrow>
            let max_value' = (if greater v max_value then v else max_value) in
            if int (depth node) < limit
              then (case investment_expand problem node of
                      Inl e \<Rightarrow> Some (Inl e, pushed)
                    | Inr children \<Rightarrow>
                        depth_limited_search_max_trace problem limit
                          (frontier' @ children) max_value' (pushed @ children))
            else depth_limited_search_max_trace problem limit frontier' max_value' pushed)"

definition max_search_trace ::
  "(number, 'a) InvestmentProblem_scheme \<Rightarrow> int
     \<Rightarrow> ((error + number) \<times> number Node list) option" where
  "max_search_trace problem limit =
     depth_limited_search_max_trace problem limit
       [Node (initial problem) None None 0] MinusInf [Node (initial problem) None None 0]"

section \<open>Notions of the tree used to state the properties\<close>

text \<open>All nodes of a tree, the root first.\<close>

fun tree_nodes :: "'v BinaryTreeNode \<Rightarrow> 'v BinaryTreeNode list" where
  "tree_nodes (BinaryTreeNode v l r) =
     BinaryTreeNode v l r #
       (case l of None \<Rightarrow> [] | Some a \<Rightarrow> tree_nodes a) @
       (case r of None \<Rightarrow> [] | Some b \<Rightarrow> tree_nodes b)"

text \<open>The height of a tree, counted in edges: a single node has height 0.\<close>

fun height :: "'v BinaryTreeNode \<Rightarrow> nat" where
  "height (BinaryTreeNode v l r) =
     max (case l of None \<Rightarrow> 0 | Some a \<Rightarrow> 1 + height a)
         (case r of None \<Rightarrow> 0 | Some b \<Rightarrow> 1 + height b)"

text \<open>The nodes at depth at most \<open>k\<close> below the root (the root is at depth 0).\<close>

fun nodes_within :: "nat \<Rightarrow> 'v BinaryTreeNode \<Rightarrow> 'v BinaryTreeNode list" where
  "nodes_within k (BinaryTreeNode v l r) =
     BinaryTreeNode v l r #
       (if k = 0 then []
        else (case l of None \<Rightarrow> [] | Some a \<Rightarrow> nodes_within (k - 1) a) @
             (case r of None \<Rightarrow> [] | Some b \<Rightarrow> nodes_within (k - 1) b))"

text \<open>A search node is a goal node when the goal test succeeds on its state.\<close>

definition goal_node :: "int Problem \<Rightarrow> int Node \<Rightarrow> bool" where
  "goal_node problem n = (is_goal problem (state n) = Inr True)"

text \<open>
  A path witness: the parent chain ends in a node without parent that holds the initial
  state, and each state on the chain is the left or the right child of its parent's state.
\<close>

fun is_child :: "'v state_value \<Rightarrow> 'v state_value \<Rightarrow> bool" where
  "is_child (Tree c) (Tree t) = (left t = Some c \<or> right t = Some c)"
| "is_child c t = False"

fun path_witness :: "'v state_value \<Rightarrow> 'v Node \<Rightarrow> bool" where
  "path_witness init (Node s None a c) = (s = init)"
| "path_witness init (Node s (Some p) a c) = (is_child s (state p) \<and> path_witness init p)"

text \<open>
  The three outcomes that the callers tell apart (\<open>is failure\<close>, \<open>is cutoff\<close>, otherwise a
  goal node, of which they read the state).
\<close>

datatype 'v classification = GoalFound "'v state_value" | IsFailure | IsCutoff

definition classify :: "'v Node \<Rightarrow> 'v classification" where
  "classify n = (if n = failure then IsFailure else if n = cutoff then IsCutoff
                 else GoalFound (state n))"

text \<open>The trees that the \<open>main\<close> functions build.\<close>

definition example_tree :: "int BinaryTreeNode" where
  "example_tree =
     BinaryTreeNode 1
       (Some (BinaryTreeNode 2 None (Some (BinaryTreeNode 4 None None))))
       (Some (BinaryTreeNode 3 (Some (BinaryTreeNode 5 None None)) None))"

definition investment_tree :: "number BinaryTreeNode" where
  "investment_tree =
     BinaryTreeNode (Number 3)
       (Some (BinaryTreeNode (Number 1) (Some (BinaryTreeNode (Number 0) None None)) None))
       (Some (BinaryTreeNode (Number 5) (Some (BinaryTreeNode (Number 4) None None))
                                        (Some (BinaryTreeNode (Number 6) None None))))"

section \<open>A recursive description of the traversal\<close>

text \<open>
  The loops work on a stack, so the part of a run that starts when a node is popped and
  ends when the stack is back to what lay below that node depends on the node's subtree
  only. The functions of this section describe that part by recursion on the subtree;
  the lemmas \<open>loop_visit\<close>, \<open>trace_visit\<close>, \<open>max_loop_visit\<close> and \<open>max_trace_visit\<close> prove that
  the loops compute them.
\<close>

definition children :: "'v BinaryTreeNode \<Rightarrow> 'v BinaryTreeNode list" where
  "children t =
     (case left t of None \<Rightarrow> [] | Some a \<Rightarrow> [a]) @ (case right t of None \<Rightarrow> [] | Some b \<Rightarrow> [b])"

text \<open>The node that \<open>expand\<close> yields for the child \<open>a\<close>; \<open>f\<close> gives its path cost.\<close>

definition child_node ::
  "('v Node \<Rightarrow> enat) \<Rightarrow> 'v Node \<Rightarrow> 'v BinaryTreeNode \<Rightarrow> 'v Node" where
  "child_node f n a = Node (Tree a) (Some n) (Some a) (f n)"

text \<open>
  What the visit of a subtree leaves behind: a goal node, in which case the search
  returns; or no goal, with or without a depth cut.
\<close>

datatype 'v verdict = Found "'v Node" | Exhausted | Cut

fun is_found :: "'v verdict \<Rightarrow> bool" where
  "is_found (Found m) = True"
| "is_found v = False"

fun after :: "'v verdict \<Rightarrow> 'v verdict \<Rightarrow> 'v verdict" where
  "after (Found m) v = Found m"
| "after Exhausted v = v"
| "after Cut (Found m) = Found m"
| "after Cut v = Cut"

text \<open>The right child is pushed last, hence visited first.\<close>

fun visit ::
  "('v Node \<Rightarrow> enat) \<Rightarrow> 'v option \<Rightarrow> int \<Rightarrow> 'v BinaryTreeNode \<Rightarrow> 'v Node \<Rightarrow> 'v verdict"
where
  "visit f g bound (BinaryTreeNode v l r) n =
     (if Some v = g then Found n
      else if bound \<le> int (depth n) then Cut
      else after
             (case r of None \<Rightarrow> Exhausted | Some b \<Rightarrow> visit f g bound b (child_node f n b))
             (case l of None \<Rightarrow> Exhausted | Some a \<Rightarrow> visit f g bound a (child_node f n a)))"

fun visit_popped ::
  "('v Node \<Rightarrow> enat) \<Rightarrow> 'v option \<Rightarrow> int \<Rightarrow> 'v BinaryTreeNode \<Rightarrow> 'v Node \<Rightarrow> 'v Node list"
where
  "visit_popped f g bound (BinaryTreeNode v l r) n =
     n # (if Some v = g \<or> bound \<le> int (depth n) then []
          else
            (case r of None \<Rightarrow> [] | Some b \<Rightarrow> visit_popped f g bound b (child_node f n b)) @
            (if is_found (case r of None \<Rightarrow> Exhausted
                          | Some b \<Rightarrow> visit f g bound b (child_node f n b))
             then []
             else (case l of None \<Rightarrow> []
                   | Some a \<Rightarrow> visit_popped f g bound a (child_node f n a))))"

fun visit_pushed ::
  "('v Node \<Rightarrow> enat) \<Rightarrow> 'v option \<Rightarrow> int \<Rightarrow> 'v BinaryTreeNode \<Rightarrow> 'v Node \<Rightarrow> 'v Node list"
where
  "visit_pushed f g bound (BinaryTreeNode v l r) n =
     (if Some v = g \<or> bound \<le> int (depth n) then []
      else
        map (child_node f n) (children (BinaryTreeNode v l r)) @
        (case r of None \<Rightarrow> [] | Some b \<Rightarrow> visit_pushed f g bound b (child_node f n b)) @
        (if is_found (case r of None \<Rightarrow> Exhausted
                      | Some b \<Rightarrow> visit f g bound b (child_node f n b))
         then []
         else (case l of None \<Rightarrow> []
               | Some a \<Rightarrow> visit_pushed f g bound a (child_node f n a))))"

text \<open>
  The tree nodes that \<open>depth_limited_search_max\<close> pops below a node that may still go
  \<open>k\<close> levels down, in the order in which it pops them, and the running maximum after one
  payload has been compared with it.
\<close>

fun visit_order :: "nat \<Rightarrow> 'v BinaryTreeNode \<Rightarrow> 'v BinaryTreeNode list" where
  "visit_order k (BinaryTreeNode v l r) =
     BinaryTreeNode v l r #
       (if k = 0 then []
        else (case r of None \<Rightarrow> [] | Some b \<Rightarrow> visit_order (k - 1) b) @
             (case l of None \<Rightarrow> [] | Some a \<Rightarrow> visit_order (k - 1) a))"

definition update_max :: "number \<Rightarrow> number \<Rightarrow> number" where
  "update_max m v = (if greater v m then v else m)"

text \<open>How the callers classify what the visit of the whole tree leaves behind.\<close>

definition verdict_class :: "'v verdict \<Rightarrow> 'v classification" where
  "verdict_class v =
     (case v of Found m \<Rightarrow> GoalFound (state m) | Exhausted \<Rightarrow> IsFailure | Cut \<Rightarrow> IsCutoff)"

section \<open>The loops compute the recursive description\<close>

lemma loop_empty:
  "depth_limited_search_loop expand problem limit [] res = Some (Inr res)"
  by (subst depth_limited_search_loop.simps) simp

lemma loop_error:
  "is_goal problem (state n) = Inl e \<Longrightarrow>
   depth_limited_search_loop expand problem limit (fs @ [n]) res = Some (Inl e)"
  by (subst depth_limited_search_loop.simps) simp

lemma loop_goal:
  "is_goal problem (state n) = Inr True \<Longrightarrow>
   depth_limited_search_loop expand problem limit (fs @ [n]) res = Some (Inr n)"
  by (subst depth_limited_search_loop.simps) simp

lemma loop_cut:
  "is_goal problem (state n) = Inr False \<Longrightarrow> limit \<le> int (depth n) \<Longrightarrow>
   depth_limited_search_loop expand problem limit (fs @ [n]) res =
   depth_limited_search_loop expand problem limit fs cutoff"
  by (subst depth_limited_search_loop.simps) simp

lemma loop_expand:
  "is_goal problem (state n) = Inr False \<Longrightarrow> \<not> limit \<le> int (depth n) \<Longrightarrow>
   expand problem n = Inr cs \<Longrightarrow>
   depth_limited_search_loop expand problem limit (fs @ [n]) res =
   depth_limited_search_loop expand problem limit (fs @ cs) res"
  by (subst depth_limited_search_loop.simps) simp

lemma trace_empty:
  "depth_limited_search_trace expand problem limit [] res pu po = Some (Inr res, pu, po)"
  by (subst depth_limited_search_trace.simps) simp

lemma trace_error:
  "is_goal problem (state n) = Inl e \<Longrightarrow>
   depth_limited_search_trace expand problem limit (fs @ [n]) res pu po =
   Some (Inl e, pu, po @ [n])"
  by (subst depth_limited_search_trace.simps) simp

lemma trace_goal:
  "is_goal problem (state n) = Inr True \<Longrightarrow>
   depth_limited_search_trace expand problem limit (fs @ [n]) res pu po =
   Some (Inr n, pu, po @ [n])"
  by (subst depth_limited_search_trace.simps) simp

lemma trace_cut:
  "is_goal problem (state n) = Inr False \<Longrightarrow> limit \<le> int (depth n) \<Longrightarrow>
   depth_limited_search_trace expand problem limit (fs @ [n]) res pu po =
   depth_limited_search_trace expand problem limit fs cutoff pu (po @ [n])"
  by (subst depth_limited_search_trace.simps) simp

lemma trace_expand:
  "is_goal problem (state n) = Inr False \<Longrightarrow> \<not> limit \<le> int (depth n) \<Longrightarrow>
   expand problem n = Inr cs \<Longrightarrow>
   depth_limited_search_trace expand problem limit (fs @ [n]) res pu po =
   depth_limited_search_trace expand problem limit (fs @ cs) res (pu @ cs) (po @ [n])"
  by (subst depth_limited_search_trace.simps) simp

lemma state_child_node: "state (child_node f n a) = Tree a"
  by (simp add: child_node_def)

lemma depth_child_node: "depth (child_node f n a) = Suc (depth n)"
  by (simp add: child_node_def)

lemma trace_visit:
  assumes E: "\<And>node t. state node = Tree t \<Longrightarrow>
                expand problem node = Inr (map (child_node f node) (children t))"
  shows "state n = Tree t \<Longrightarrow>
    depth_limited_search_trace expand problem limit (fs @ [n]) res pu po =
      (case visit f (goal problem) limit t n of
         Found m \<Rightarrow> Some (Inr m, pu @ visit_pushed f (goal problem) limit t n,
                          po @ visit_popped f (goal problem) limit t n)
       | Exhausted \<Rightarrow> depth_limited_search_trace expand problem limit fs res
                       (pu @ visit_pushed f (goal problem) limit t n)
                       (po @ visit_popped f (goal problem) limit t n)
       | Cut \<Rightarrow> depth_limited_search_trace expand problem limit fs cutoff
                       (pu @ visit_pushed f (goal problem) limit t n)
                       (po @ visit_popped f (goal problem) limit t n))"
proof (induction t arbitrary: n fs res pu po rule: tree_nodes.induct)
  case (1 v l r)
  show ?case
  proof (cases "Some v = goal problem")
    case True
    with 1(3) show ?thesis by (simp add: trace_goal is_goal_def)
  next
    case ng: False
    then have G: "is_goal problem (state n) = Inr False"
      using 1(3) by (simp add: is_goal_def)
    show ?thesis
    proof (cases "limit \<le> int (depth n)")
      case True
      with ng G show ?thesis by (simp add: trace_cut)
    next
      case nc: False
      note X = trace_expand[where expand=expand and problem=problem and n=n,
                            OF G nc E[OF 1(3)]]
      show ?thesis
      proof (cases r)
        case rN: None
        show ?thesis
        proof (cases l)
          case None
          with rN ng nc show ?thesis by (simp add: X children_def)
        next
          case (Some a)
          with rN ng nc show ?thesis
            by (simp add: X children_def 1(1)[OF Some state_child_node] split: verdict.splits)
        qed
      next
        case rS: (Some b)
        show ?thesis
        proof (cases l)
          case None
          with rS ng nc show ?thesis
            by (simp add: X children_def 1(2)[OF rS state_child_node] split: verdict.splits)
        next
          case (Some a)
          define ca where "ca = child_node f n a"
          define cb where "cb = child_node f n b"
          have sa: "state ca = Tree a" and sb: "state cb = Tree b"
            by (simp_all add: ca_def cb_def child_node_def)
          have step: "depth_limited_search_trace expand problem limit (fs @ [n]) res pu po =
                depth_limited_search_trace expand problem limit (fs @ [ca, cb]) res
                   (pu @ [ca, cb]) (po @ [n])"
            using Some rS by (simp add: X children_def ca_def cb_def)
          have R: "depth_limited_search_trace expand problem limit (fs @ [ca, cb]) res' pu' po' =
              (case visit f (goal problem) limit b cb of
                 Found m \<Rightarrow> Some (Inr m, pu' @ visit_pushed f (goal problem) limit b cb,
                          po' @ visit_popped f (goal problem) limit b cb)
               | Exhausted \<Rightarrow> depth_limited_search_trace expand problem limit (fs @ [ca]) res'
                       (pu' @ visit_pushed f (goal problem) limit b cb)
                       (po' @ visit_popped f (goal problem) limit b cb)
               | Cut \<Rightarrow> depth_limited_search_trace expand problem limit (fs @ [ca]) cutoff
                       (pu' @ visit_pushed f (goal problem) limit b cb)
                       (po' @ visit_popped f (goal problem) limit b cb))" for res' pu' po'
            using 1(2)[OF rS sb, of "fs @ [ca]" res' pu' po'] by simp
          note L = 1(1)[OF Some sa]
          show ?thesis using Some rS ng nc
            by (simp add: step R L children_def flip: ca_def cb_def split: verdict.splits)
        qed
      qed
    qed
  qed
qed

lemma loop_visit:
  assumes E: "\<And>node t. state node = Tree t \<Longrightarrow>
                expand problem node = Inr (map (child_node f node) (children t))"
  shows "state n = Tree t \<Longrightarrow>
    depth_limited_search_loop expand problem limit (fs @ [n]) res =
      (case visit f (goal problem) limit t n of
         Found m \<Rightarrow> Some (Inr m)
       | Exhausted \<Rightarrow> depth_limited_search_loop expand problem limit fs res
       | Cut \<Rightarrow> depth_limited_search_loop expand problem limit fs cutoff)"
proof (induction t arbitrary: n fs res rule: tree_nodes.induct)
  case (1 v l r)
  show ?case
  proof (cases "Some v = goal problem")
    case True
    with 1(3) show ?thesis by (simp add: loop_goal is_goal_def)
  next
    case ng: False
    then have G: "is_goal problem (state n) = Inr False"
      using 1(3) by (simp add: is_goal_def)
    show ?thesis
    proof (cases "limit \<le> int (depth n)")
      case True
      with ng G show ?thesis by (simp add: loop_cut)
    next
      case nc: False
      note X = loop_expand[where expand=expand and problem=problem and n=n,
                           OF G nc E[OF 1(3)]]
      show ?thesis
      proof (cases r)
        case rN: None
        show ?thesis
        proof (cases l)
          case None
          with rN ng nc show ?thesis by (simp add: X children_def)
        next
          case (Some a)
          with rN ng nc show ?thesis
            by (simp add: X children_def 1(1)[OF Some state_child_node] split: verdict.splits)
        qed
      next
        case rS: (Some b)
        show ?thesis
        proof (cases l)
          case None
          with rS ng nc show ?thesis
            by (simp add: X children_def 1(2)[OF rS state_child_node] split: verdict.splits)
        next
          case (Some a)
          define ca where "ca = child_node f n a"
          define cb where "cb = child_node f n b"
          have sa: "state ca = Tree a" and sb: "state cb = Tree b"
            by (simp_all add: ca_def cb_def child_node_def)
          have step: "depth_limited_search_loop expand problem limit (fs @ [n]) res =
                depth_limited_search_loop expand problem limit (fs @ [ca, cb]) res"
            using Some rS by (simp add: X children_def ca_def cb_def)
          have R: "depth_limited_search_loop expand problem limit (fs @ [ca, cb]) res' =
              (case visit f (goal problem) limit b cb of
                 Found m \<Rightarrow> Some (Inr m)
               | Exhausted \<Rightarrow> depth_limited_search_loop expand problem limit (fs @ [ca]) res'
               | Cut \<Rightarrow> depth_limited_search_loop expand problem limit (fs @ [ca]) cutoff)"
            for res'
            using 1(2)[OF rS sb, of "fs @ [ca]" res'] by simp
          note L = 1(1)[OF Some sa]
          show ?thesis using Some rS ng nc
            by (simp add: step R L flip: ca_def cb_def split: verdict.splits)
        qed
      qed
    qed
  qed
qed

lemma robot_expand_children:
  "state node = Tree t \<Longrightarrow>
   robot_expand problem node = Inr (map (child_node (\<lambda>n. 0) node) (children t))"
  by (cases "left t"; cases "right t")
     (simp_all add: robot_expand_def RoomNavigationProblem_actions_def truthy_def
        problem_result_def child_node_def children_def)

lemma warehouse_expand_children:
  "state node = Tree t \<Longrightarrow>
   warehouse_expand problem node =
     Inr (map (child_node (\<lambda>n. path_cost n + 1) node) (children t))"
  by (cases "left t"; cases "right t")
     (simp_all add: warehouse_expand_def WarehouseProblem_actions_def
        problem_result_def child_node_def children_def)

lemma investment_expand_children:
  "state node = Tree t \<Longrightarrow>
   investment_expand problem node = Inr (map (child_node (\<lambda>n. 0) node) (children t))"
  by (cases "left t"; cases "right t")
     (simp_all add: investment_expand_def InvestmentProblem_actions_def
        problem_result_def child_node_def children_def)

lemma max_loop_empty:
  "depth_limited_search_max_loop problem limit [] m = Some (Inr m)"
  by (subst depth_limited_search_max_loop.simps) simp

lemma max_loop_error:
  "state_payload (state n) = Inl e \<Longrightarrow>
   depth_limited_search_max_loop problem limit (fs @ [n]) m = Some (Inl e)"
  by (subst depth_limited_search_max_loop.simps) simp

lemma max_loop_expand:
  "state_payload (state n) = Inr v \<Longrightarrow> int (depth n) < limit \<Longrightarrow>
   investment_expand problem n = Inr cs \<Longrightarrow>
   depth_limited_search_max_loop problem limit (fs @ [n]) m =
   depth_limited_search_max_loop problem limit (fs @ cs) (update_max m v)"
  by (subst depth_limited_search_max_loop.simps) (simp add: update_max_def)

lemma max_loop_leaf:
  "state_payload (state n) = Inr v \<Longrightarrow> \<not> int (depth n) < limit \<Longrightarrow>
   depth_limited_search_max_loop problem limit (fs @ [n]) m =
   depth_limited_search_max_loop problem limit fs (update_max m v)"
  by (subst depth_limited_search_max_loop.simps) (simp add: update_max_def)

lemma max_trace_empty:
  "depth_limited_search_max_trace problem limit [] m pu = Some (Inr m, pu)"
  by (subst depth_limited_search_max_trace.simps) simp

lemma max_trace_error:
  "state_payload (state n) = Inl e \<Longrightarrow>
   depth_limited_search_max_trace problem limit (fs @ [n]) m pu = Some (Inl e, pu)"
  by (subst depth_limited_search_max_trace.simps) simp

lemma max_trace_expand:
  "state_payload (state n) = Inr v \<Longrightarrow> int (depth n) < limit \<Longrightarrow>
   investment_expand problem n = Inr cs \<Longrightarrow>
   depth_limited_search_max_trace problem limit (fs @ [n]) m pu =
   depth_limited_search_max_trace problem limit (fs @ cs) (update_max m v) (pu @ cs)"
  by (subst depth_limited_search_max_trace.simps) (simp add: update_max_def)

lemma max_trace_leaf:
  "state_payload (state n) = Inr v \<Longrightarrow> \<not> int (depth n) < limit \<Longrightarrow>
   depth_limited_search_max_trace problem limit (fs @ [n]) m pu =
   depth_limited_search_max_trace problem limit fs (update_max m v) pu"
  by (subst depth_limited_search_max_trace.simps) (simp add: update_max_def)

lemma nat_pred_depth:
  "int d < limit \<Longrightarrow> nat (limit - int (Suc d)) = nat (limit - int d) - 1"
  by simp

lemma max_loop_visit:
  "state n = Tree t \<Longrightarrow>
   depth_limited_search_max_loop problem limit (fs @ [n]) m =
   depth_limited_search_max_loop problem limit fs
     (foldl update_max m (map node_value (visit_order (nat (limit - int (depth n))) t)))"
proof (induction t arbitrary: n fs m rule: tree_nodes.induct)
  case (1 v l r)
  have P: "state_payload (state n) = Inr v"
    using 1(3) by (simp add: state_payload_def)
  show ?case
  proof (cases "int (depth n) < limit")
    case False
    then show ?thesis by (simp add: max_loop_leaf[OF P False])
  next
    case d: True
    then have k: "nat (limit - int (depth n)) \<noteq> 0" by simp
    note X = max_loop_expand[OF P d investment_expand_children[OF 1(3)]]
    have kk: "nat (limit - int (depth (child_node f n c))) = nat (limit - int (depth n)) - 1"
      for f c using d by (simp add: depth_child_node)
    show ?thesis
    proof (cases r)
      case rN: None
      show ?thesis
      proof (cases l)
        case None
        with rN k show ?thesis by (simp add: X children_def max_loop_empty)
      next
        case (Some a)
        with rN k show ?thesis
          by (simp add: X children_def 1(1)[OF Some state_child_node] kk)
      qed
    next
      case rS: (Some b)
      show ?thesis
      proof (cases l)
        case None
        with rS k show ?thesis
          by (simp add: X children_def 1(2)[OF rS state_child_node] kk)
      next
        case (Some a)
        define ca where "ca = child_node (\<lambda>n. 0) n a"
        define cb where "cb = child_node (\<lambda>n. 0) n b"
        have sa: "state ca = Tree a" and sb: "state cb = Tree b"
          by (simp_all add: ca_def cb_def child_node_def)
        have da: "nat (limit - int (depth ca)) = nat (limit - int (depth n)) - 1"
          and db: "nat (limit - int (depth cb)) = nat (limit - int (depth n)) - 1"
          by (simp_all add: ca_def cb_def kk)
        have step: "depth_limited_search_max_loop problem limit (fs @ [n]) m =
                depth_limited_search_max_loop problem limit (fs @ [ca, cb]) (update_max m v)"
          using Some rS by (simp add: X children_def ca_def cb_def)
        have R: "depth_limited_search_max_loop problem limit (fs @ [ca, cb]) m' =
                 depth_limited_search_max_loop problem limit (fs @ [ca])
                   (foldl update_max m'
                      (map node_value (visit_order (nat (limit - int (depth n)) - 1) b)))"
          for m'
          using 1(2)[OF rS sb, of "fs @ [ca]" m'] by (simp add: db)
        note L = 1(1)[OF Some sa, unfolded da]
        show ?thesis using Some rS k
          by (simp add: step R L)
      qed
    qed
  qed
qed

lemma is_found_after: "is_found (after a b) = (is_found a \<or> is_found b)"
  by (cases a; cases b) simp_all

lemma visit_no_goal: "\<not> is_found (visit f None limit t n)"
  by (induction t arbitrary: n rule: tree_nodes.induct)
     (simp add: is_found_after split: option.splits)

lemma max_trace_visit:
  "state n = Tree t \<Longrightarrow>
   depth_limited_search_max_trace problem limit (fs @ [n]) m pu =
   depth_limited_search_max_trace problem limit fs
     (foldl update_max m (map node_value (visit_order (nat (limit - int (depth n))) t)))
     (pu @ visit_pushed (\<lambda>n. 0) None limit t n)"
proof (induction t arbitrary: n fs m pu rule: tree_nodes.induct)
  case (1 v l r)
  have P: "state_payload (state n) = Inr v"
    using 1(3) by (simp add: state_payload_def)
  show ?case
  proof (cases "int (depth n) < limit")
    case False
    then show ?thesis by (simp add: max_trace_leaf[OF P False])
  next
    case d: True
    then have k: "nat (limit - int (depth n)) \<noteq> 0" and nk: "\<not> limit \<le> int (depth n)"
      by simp_all
    note X = max_trace_expand[OF P d investment_expand_children[OF 1(3)]]
    have kk: "nat (limit - int (depth (child_node f n c))) = nat (limit - int (depth n)) - 1"
      for f c using d by (simp add: depth_child_node)
    note nf = visit_no_goal
    show ?thesis
    proof (cases r)
      case rN: None
      show ?thesis
      proof (cases l)
        case None
        with rN k nk show ?thesis by (simp add: X children_def)
      next
        case (Some a)
        with rN k nk show ?thesis
          by (simp add: X children_def 1(1)[OF Some state_child_node] kk)
      qed
    next
      case rS: (Some b)
      show ?thesis
      proof (cases l)
        case None
        with rS k nk show ?thesis
          by (simp add: X children_def 1(2)[OF rS state_child_node] kk)
      next
        case (Some a)
        define ca where "ca = child_node (\<lambda>n. 0) n a"
        define cb where "cb = child_node (\<lambda>n. 0) n b"
        have sa: "state ca = Tree a" and sb: "state cb = Tree b"
          by (simp_all add: ca_def cb_def child_node_def)
        have da: "nat (limit - int (depth ca)) = nat (limit - int (depth n)) - 1"
          and db: "nat (limit - int (depth cb)) = nat (limit - int (depth n)) - 1"
          by (simp_all add: ca_def cb_def kk)
        have step: "depth_limited_search_max_trace problem limit (fs @ [n]) m pu =
                depth_limited_search_max_trace problem limit (fs @ [ca, cb]) (update_max m v)
                  (pu @ [ca, cb])"
          using Some rS by (simp add: X children_def ca_def cb_def)
        have R: "depth_limited_search_max_trace problem limit (fs @ [ca, cb]) m' pu' =
                 depth_limited_search_max_trace problem limit (fs @ [ca])
                   (foldl update_max m'
                      (map node_value (visit_order (nat (limit - int (depth n)) - 1) b)))
                   (pu' @ visit_pushed (\<lambda>n. 0) None limit b cb)"
          for m' pu'
          using 1(2)[OF rS sb, of "fs @ [ca]" m' pu'] by (simp add: db)
        note L = 1(1)[OF Some sa, unfolded da]
        show ?thesis using Some rS k nk
          by (simp add: step R L nf children_def flip: ca_def cb_def)
      qed
    qed
  qed
qed

section \<open>The searches from the root\<close>

lemma search_loop_root:
  assumes E: "\<And>node t. state node = Tree t \<Longrightarrow>
                expand problem node = Inr (map (child_node f node) (children t))"
  shows "depth_limited_search_loop expand problem limit [Node (Tree t) None None 0] failure =
     Some (Inr (case visit f (goal problem) limit t (Node (Tree t) None None 0) of
                  Found m \<Rightarrow> m | Exhausted \<Rightarrow> failure | Cut \<Rightarrow> cutoff))"
  using loop_visit[where expand=expand and problem=problem and f=f
                     and n="Node (Tree t) None None 0" and t=t and fs="[]", OF E]
  by (simp add: loop_empty split: verdict.splits)

lemma search_trace_root:
  assumes E: "\<And>node t. state node = Tree t \<Longrightarrow>
                expand problem node = Inr (map (child_node f node) (children t))"
  shows "depth_limited_search_trace expand problem limit [Node (Tree t) None None 0] failure
           [Node (Tree t) None None 0] [] =
     Some (Inr (case visit f (goal problem) limit t (Node (Tree t) None None 0) of
                  Found m \<Rightarrow> m | Exhausted \<Rightarrow> failure | Cut \<Rightarrow> cutoff),
           Node (Tree t) None None 0 #
             visit_pushed f (goal problem) limit t (Node (Tree t) None None 0),
           visit_popped f (goal problem) limit t (Node (Tree t) None None 0))"
  using trace_visit[where expand=expand and problem=problem and f=f
                     and n="Node (Tree t) None None 0" and t=t and fs="[]", OF E]
  by (simp add: trace_empty split: verdict.splits)

lemma robot_search_root:
  "depth_limited_search_loop robot_expand problem limit [Node (Tree t) None None 0] failure =
     Some (Inr (case visit (\<lambda>n. 0) (goal problem) limit t (Node (Tree t) None None 0) of
                  Found m \<Rightarrow> m | Exhausted \<Rightarrow> failure | Cut \<Rightarrow> cutoff))"
  by (rule search_loop_root) (rule robot_expand_children)

lemma warehouse_search_root:
  "depth_limited_search_loop warehouse_expand problem limit [Node (Tree t) None None 0] failure =
     Some (Inr (case visit (\<lambda>n. path_cost n + 1) (goal problem) limit t
                       (Node (Tree t) None None 0) of
                  Found m \<Rightarrow> m | Exhausted \<Rightarrow> failure | Cut \<Rightarrow> cutoff))"
  by (rule search_loop_root) (rule warehouse_expand_children)

lemma robot_trace_root:
  "depth_limited_search_trace robot_expand problem limit [Node (Tree t) None None 0] failure
           [Node (Tree t) None None 0] [] =
     Some (Inr (case visit (\<lambda>n. 0) (goal problem) limit t (Node (Tree t) None None 0) of
                  Found m \<Rightarrow> m | Exhausted \<Rightarrow> failure | Cut \<Rightarrow> cutoff),
           Node (Tree t) None None 0 #
             visit_pushed (\<lambda>n. 0) (goal problem) limit t (Node (Tree t) None None 0),
           visit_popped (\<lambda>n. 0) (goal problem) limit t (Node (Tree t) None None 0))"
  by (rule search_trace_root) (rule robot_expand_children)

lemma warehouse_trace_root:
  "depth_limited_search_trace warehouse_expand problem limit [Node (Tree t) None None 0] failure
           [Node (Tree t) None None 0] [] =
     Some (Inr (case visit (\<lambda>n. path_cost n + 1) (goal problem) limit t
                       (Node (Tree t) None None 0) of
                  Found m \<Rightarrow> m | Exhausted \<Rightarrow> failure | Cut \<Rightarrow> cutoff),
           Node (Tree t) None None 0 #
             visit_pushed (\<lambda>n. path_cost n + 1) (goal problem) limit t
               (Node (Tree t) None None 0),
           visit_popped (\<lambda>n. path_cost n + 1) (goal problem) limit t
             (Node (Tree t) None None 0))"
  by (rule search_trace_root) (rule warehouse_expand_children)

lemma search_loop_no_tree:
  assumes "\<And>t. s \<noteq> Tree t"
  shows "depth_limited_search_loop expand problem limit [Node s None None 0] res =
     Some (Inl AttributeError)"
  using assms loop_error[where fs="[]" and n="Node s None None 0" and e=AttributeError]
  by (cases s) (auto simp add: is_goal_def)

lemma search_trace_no_tree:
  assumes "\<And>t. s \<noteq> Tree t"
  shows "depth_limited_search_trace expand problem limit [Node s None None 0] res pu po =
     Some (Inl AttributeError, pu, po @ [Node s None None 0])"
  using assms trace_error[where fs="[]" and n="Node s None None 0" and e=AttributeError]
  by (cases s) (auto simp add: is_goal_def)

lemma max_loop_no_tree:
  assumes "\<And>t. s \<noteq> Tree t"
  shows "depth_limited_search_max_loop problem limit [Node s None None 0] m =
     Some (Inl AttributeError)"
  using assms max_loop_error[where fs="[]" and n="Node s None None 0" and e=AttributeError]
  by (cases s) (auto simp add: state_payload_def)

lemma nodes_within_not_empty: "nodes_within k t \<noteq> []"
  by (cases t) simp

lemma max_search_tree:
  "initial problem = Tree t \<Longrightarrow>
   depth_limited_search_max problem limit =
     Some (Inr (if foldl update_max MinusInf
                     (map node_value (visit_order (nat limit) t)) = MinusInf
                then None
                else Some (foldl update_max MinusInf
                             (map node_value (visit_order (nat limit) t)))))"
proof -
  assume i: "initial problem = Tree t"
  show ?thesis
    using max_loop_visit[where n="Node (Tree t) None None 0" and t=t and fs="[]"
                           and problem=problem and limit=limit and m=MinusInf]
    by (simp add: depth_limited_search_max_def i max_loop_empty)
qed

section \<open>Termination\<close>

lemma state_value_tree_cases:
  obtains t where "s = Tree t" | "\<And>t. s \<noteq> Tree t"
  by (cases s) auto

lemma length_visit_popped:
  "length (visit_popped f g limit t n) \<le> length (tree_nodes t)"
proof (induction t arbitrary: n rule: tree_nodes.induct)
  case (1 v l r)
  have L: "length (case l of None \<Rightarrow> []
                   | Some a \<Rightarrow> visit_popped f g limit a (child_node f n a))
           \<le> length (case l of None \<Rightarrow> [] | Some a \<Rightarrow> tree_nodes a)"
    using 1(1) by (cases l) simp_all
  have R: "length (case r of None \<Rightarrow> []
                   | Some b \<Rightarrow> visit_popped f g limit b (child_node f n b))
           \<le> length (case r of None \<Rightarrow> [] | Some b \<Rightarrow> tree_nodes b)"
    using 1(2) by (cases r) simp_all
  from L R show ?case by simp
qed

text \<open>
  C10. Both searches return for every problem and every integer limit, negative limits
  included (with a problem that has no tree as initial state they return by raising
  \<open>AttributeError\<close>, or \<open>None\<close> in \<open>depth_limited_search_max\<close>). On a tree the loop of
  \<open>depth_limited_search\<close> runs at most once per node of the tree.
\<close>

theorem searches_terminate:
  "(\<exists>r. robot_depth_limited_search p limit = Some r) \<and>
   (\<exists>r. warehouse_depth_limited_search p limit = Some r) \<and>
   (\<exists>r. depth_limited_search_max q limit = Some r) \<and>
   (\<exists>r pushed popped.
      robot_search_trace \<lparr>initial = Tree t, goal = g\<rparr> limit = Some (r, pushed, popped) \<and>
      length popped \<le> length (tree_nodes t)) \<and>
   (\<exists>r pushed popped.
      warehouse_search_trace \<lparr>initial = Tree t, goal = g\<rparr> limit = Some (r, pushed, popped) \<and>
      length popped \<le> length (tree_nodes t))"
proof -
  have 1: "\<exists>r. robot_depth_limited_search p limit = Some r"
    by (cases "initial p" rule: state_value_tree_cases)
       (simp_all add: robot_depth_limited_search_def robot_search_root search_loop_no_tree)
  have 2: "\<exists>r. warehouse_depth_limited_search p limit = Some r"
    by (cases "initial p" rule: state_value_tree_cases)
       (simp_all add: warehouse_depth_limited_search_def warehouse_search_root
          search_loop_no_tree)
  have 3: "\<exists>r. depth_limited_search_max q limit = Some r"
  proof (cases "initial q" rule: state_value_tree_cases)
    case (1 t)
    then show ?thesis by (simp add: max_search_tree)
  next
    case 2
    then show ?thesis
      by (simp add: depth_limited_search_max_def max_loop_no_tree)
  qed
  have 4: "\<exists>r pushed popped.
      robot_search_trace \<lparr>initial = Tree t, goal = g\<rparr> limit = Some (r, pushed, popped) \<and>
      length popped \<le> length (tree_nodes t)"
    by (simp add: robot_search_trace_def robot_trace_root length_visit_popped)
  have 5: "\<exists>r pushed popped.
      warehouse_search_trace \<lparr>initial = Tree t, goal = g\<rparr> limit = Some (r, pushed, popped) \<and>
      length popped \<le> length (tree_nodes t)"
    by (simp add: warehouse_search_trace_def warehouse_trace_root length_visit_popped)
  from 1 2 3 4 5 show ?thesis by blast
qed

section \<open>Goal test and depth limit\<close>

lemma goal_node_not_sentinel: "goal_node problem n \<Longrightarrow> n \<noteq> failure \<and> n \<noteq> cutoff"
  by (auto simp: goal_node_def is_goal_def failure_def cutoff_def)

text \<open>
  C4. A popped node is tested with \<open>is_goal\<close> before its depth is compared with the limit:
  when the node on top of the frontier is a goal node at depth exactly \<open>limit\<close>, the loop
  returns this node, which is neither sentinel, whatever the pending result is. For the
  tree of \<open>main\<close>, 1(2(-, 4), 3(5, -)), with goal 4 and limit 2, both modules return the
  search node of the tree node 4, reached through 2 from the root.
\<close>

theorem goal_test_before_depth_check:
  "(goal_node problem n \<longrightarrow> int (depth n) = limit \<longrightarrow>
      depth_limited_search_loop expand problem limit (frontier @ [n]) result = Some (Inr n) \<and>
      n \<noteq> cutoff \<and> n \<noteq> failure) \<and>
   robot_depth_limited_search \<lparr>initial = Tree example_tree, goal = Some 4\<rparr> 2 =
     Some (Inr (Node (Tree (BinaryTreeNode 4 None None))
             (Some (Node (Tree (BinaryTreeNode 2 None (Some (BinaryTreeNode 4 None None))))
                      (Some (Node (Tree example_tree) None None 0))
                      (Some (BinaryTreeNode 2 None (Some (BinaryTreeNode 4 None None)))) 0))
             (Some (BinaryTreeNode 4 None None)) 0)) \<and>
   warehouse_depth_limited_search \<lparr>initial = Tree example_tree, goal = Some 4\<rparr> 2 =
     Some (Inr (Node (Tree (BinaryTreeNode 4 None None))
             (Some (Node (Tree (BinaryTreeNode 2 None (Some (BinaryTreeNode 4 None None))))
                      (Some (Node (Tree example_tree) None None 0))
                      (Some (BinaryTreeNode 2 None (Some (BinaryTreeNode 4 None None)))) 1))
             (Some (BinaryTreeNode 4 None None)) 2))"
proof (intro conjI impI)
  assume g: "goal_node problem n"
  then show "depth_limited_search_loop expand problem limit (frontier @ [n]) result =
               Some (Inr n)"
    by (simp add: goal_node_def loop_goal)
  from g show "n \<noteq> cutoff" "n \<noteq> failure"
    by (simp_all add: goal_node_not_sentinel)
next
  show "robot_depth_limited_search \<lparr>initial = Tree example_tree, goal = Some 4\<rparr> 2 =
     Some (Inr (Node (Tree (BinaryTreeNode 4 None None))
             (Some (Node (Tree (BinaryTreeNode 2 None (Some (BinaryTreeNode 4 None None))))
                      (Some (Node (Tree example_tree) None None 0))
                      (Some (BinaryTreeNode 2 None (Some (BinaryTreeNode 4 None None)))) 0))
             (Some (BinaryTreeNode 4 None None)) 0))"
    by (simp add: robot_depth_limited_search_def robot_search_root)
       (simp add: example_tree_def child_node_def)
next
  show "warehouse_depth_limited_search \<lparr>initial = Tree example_tree, goal = Some 4\<rparr> 2 =
     Some (Inr (Node (Tree (BinaryTreeNode 4 None None))
             (Some (Node (Tree (BinaryTreeNode 2 None (Some (BinaryTreeNode 4 None None))))
                      (Some (Node (Tree example_tree) None None 0))
                      (Some (BinaryTreeNode 2 None (Some (BinaryTreeNode 4 None None)))) 1))
             (Some (BinaryTreeNode 4 None None)) 2))"
    by (simp add: warehouse_depth_limited_search_def warehouse_search_root)
       (simp add: example_tree_def child_node_def)
qed

theorem goal_test_before_depth_check_witness:
  "goal_node \<lparr>initial = Tree example_tree, goal = Some 4\<rparr>
     (Node (Tree (BinaryTreeNode 4 None None))
        (Some (Node (Tree (BinaryTreeNode 2 None (Some (BinaryTreeNode 4 None None))))
                 (Some (Node (Tree example_tree) None None 0))
                 (Some (BinaryTreeNode 2 None (Some (BinaryTreeNode 4 None None)))) 0))
        (Some (BinaryTreeNode 4 None None)) 0) \<and>
   int (depth (Node (Tree (BinaryTreeNode 4 None None))
        (Some (Node (Tree (BinaryTreeNode 2 None (Some (BinaryTreeNode 4 None None))))
                 (Some (Node (Tree example_tree) None None 0))
                 (Some (BinaryTreeNode 2 None (Some (BinaryTreeNode 4 None None)))) 0))
        (Some (BinaryTreeNode 4 None None)) 0)) = 2 \<and>
   depth_limited_search_loop robot_expand \<lparr>initial = Tree example_tree, goal = Some 4\<rparr> 2
     ([] @ [Node (Tree (BinaryTreeNode 4 None None))
        (Some (Node (Tree (BinaryTreeNode 2 None (Some (BinaryTreeNode 4 None None))))
                 (Some (Node (Tree example_tree) None None 0))
                 (Some (BinaryTreeNode 2 None (Some (BinaryTreeNode 4 None None)))) 0))
        (Some (BinaryTreeNode 4 None None)) 0]) cutoff =
     Some (Inr (Node (Tree (BinaryTreeNode 4 None None))
        (Some (Node (Tree (BinaryTreeNode 2 None (Some (BinaryTreeNode 4 None None))))
                 (Some (Node (Tree example_tree) None None 0))
                 (Some (BinaryTreeNode 2 None (Some (BinaryTreeNode 4 None None)))) 0))
        (Some (BinaryTreeNode 4 None None)) 0))"
  using goal_test_before_depth_check
    [of "\<lparr>initial = Tree example_tree, goal = Some 4\<rparr>"
        "Node (Tree (BinaryTreeNode 4 None None))
        (Some (Node (Tree (BinaryTreeNode 2 None (Some (BinaryTreeNode 4 None None))))
                 (Some (Node (Tree example_tree) None None 0))
                 (Some (BinaryTreeNode 2 None (Some (BinaryTreeNode 4 None None)))) 0))
        (Some (BinaryTreeNode 4 None None)) 0" 2 robot_expand "[]" cutoff]
  by (simp add: goal_node_def is_goal_def)

text \<open>
  C5. With limit 0 and a root that fails the goal test, both modules return \<open>cutoff\<close>; the
  root is the only node pushed and the only node popped (and so goal-tested): it is not
  expanded.
\<close>

theorem limit_zero_cutoff:
  "is_goal problem (initial problem) = Inr False \<Longrightarrow>
   robot_depth_limited_search problem 0 = Some (Inr cutoff) \<and>
   robot_search_trace problem 0 =
     Some (Inr cutoff, [Node (initial problem) None None 0],
           [Node (initial problem) None None 0]) \<and>
   warehouse_depth_limited_search problem 0 = Some (Inr cutoff) \<and>
   warehouse_search_trace problem 0 =
     Some (Inr cutoff, [Node (initial problem) None None 0],
           [Node (initial problem) None None 0])"
proof -
  assume g: "is_goal problem (initial problem) = Inr False"
  let ?root = "Node (initial problem) None None 0"
  have l: "depth_limited_search_loop expand problem 0 [?root] failure = Some (Inr cutoff)"
    for expand
    using g loop_cut[where n="?root" and fs="[]" and limit=0 and problem=problem]
    by (simp add: loop_empty)
  have t: "depth_limited_search_trace expand problem 0 [?root] failure [?root] [] =
             Some (Inr cutoff, [?root], [?root])"
    for expand
    using g trace_cut[where n="?root" and fs="[]" and limit=0 and problem=problem]
    by (simp add: trace_empty)
  show ?thesis
    by (simp add: l t robot_depth_limited_search_def warehouse_depth_limited_search_def
          robot_search_trace_def warehouse_search_trace_def)
qed

theorem limit_zero_cutoff_witness:
  "is_goal \<lparr>initial = Tree example_tree, goal = Some 4\<rparr>
     (initial \<lparr>initial = Tree example_tree, goal = Some 4\<rparr>) = Inr False \<and>
   robot_depth_limited_search \<lparr>initial = Tree example_tree, goal = Some 4\<rparr> 0 =
     Some (Inr cutoff) \<and>
   robot_search_trace \<lparr>initial = Tree example_tree, goal = Some 4\<rparr> 0 =
     Some (Inr cutoff, [Node (Tree example_tree) None None 0],
           [Node (Tree example_tree) None None 0]) \<and>
   warehouse_depth_limited_search \<lparr>initial = Tree example_tree, goal = Some 4\<rparr> 0 =
     Some (Inr cutoff) \<and>
   warehouse_search_trace \<lparr>initial = Tree example_tree, goal = Some 4\<rparr> 0 =
     Some (Inr cutoff, [Node (Tree example_tree) None None 0],
           [Node (Tree example_tree) None None 0])"
  using limit_zero_cutoff[of "\<lparr>initial = Tree example_tree, goal = Some 4\<rparr>"]
  by (simp add: is_goal_def example_tree_def)

section \<open>Properties of the recursive description\<close>

lemma after_Found: "after a b = Found m \<Longrightarrow> a = Found m \<or> b = Found m"
  by (cases a; cases b) simp_all

lemma after_Cut:
  "\<not> is_found (after a b) \<Longrightarrow> (after a b = Cut) = (a = Cut \<or> b = Cut)"
  by (cases a; cases b) simp_all

lemma height_nodes_within: "height t \<le> k \<Longrightarrow> nodes_within k t = tree_nodes t"
proof (induction t arbitrary: k rule: tree_nodes.induct)
  case (1 v l r)
  have L: "(case l of None \<Rightarrow> [] | Some a \<Rightarrow> nodes_within (k - 1) a) =
           (case l of None \<Rightarrow> [] | Some a \<Rightarrow> tree_nodes a)"
  proof (cases l)
    case None
    then show ?thesis by simp
  next
    case (Some a)
    with 1(3) have "height a \<le> k - 1" by auto
    from 1(1)[OF Some this] Some show ?thesis by simp
  qed
  have R: "(case r of None \<Rightarrow> [] | Some b \<Rightarrow> nodes_within (k - 1) b) =
           (case r of None \<Rightarrow> [] | Some b \<Rightarrow> tree_nodes b)"
  proof (cases r)
    case None
    then show ?thesis by simp
  next
    case (Some b)
    with 1(3) have "height b \<le> k - 1" by auto
    from 1(2)[OF Some this] Some show ?thesis by simp
  qed
  show ?case
  proof (cases "k = 0")
    case True
    with 1(3) show ?thesis by (cases l; cases r) simp_all
  next
    case False
    with L R show ?thesis by simp
  qed
qed

lemma visit_found_iff:
  "is_found (visit f g limit t n) =
   (\<exists>s\<in>set (nodes_within (nat (limit - int (depth n))) t). Some (node_value s) = g)"
proof (induction t arbitrary: n rule: tree_nodes.induct)
  case (1 v l r)
  let ?k = "nat (limit - int (depth n))"
  show ?case
  proof (cases "Some v = g \<or> limit \<le> int (depth n)")
    case True
    then show ?thesis by auto
  next
    case False
    then have k: "?k \<noteq> 0" by simp
    have kk: "nat (limit - int (depth (child_node f n c))) = ?k - 1" for c
      using False by (simp add: depth_child_node)
    have L: "is_found (case l of None \<Rightarrow> Exhausted
                       | Some a \<Rightarrow> visit f g limit a (child_node f n a)) =
             (\<exists>s\<in>set (case l of None \<Rightarrow> [] | Some a \<Rightarrow> nodes_within (?k - 1) a).
                Some (node_value s) = g)"
      using 1(1) by (cases l) (simp_all add: kk)
    have R: "is_found (case r of None \<Rightarrow> Exhausted
                       | Some b \<Rightarrow> visit f g limit b (child_node f n b)) =
             (\<exists>s\<in>set (case r of None \<Rightarrow> [] | Some b \<Rightarrow> nodes_within (?k - 1) b).
                Some (node_value s) = g)"
      using 1(2) by (cases r) (simp_all add: kk)
    from False k show ?thesis
      by (simp add: is_found_after L R) blast
  qed
qed

lemma visit_Found_goal:
  "visit f g limit t n = Found m \<Longrightarrow> state n = Tree t \<Longrightarrow>
   \<exists>s. state m = Tree s \<and> Some (node_value s) = g"
proof (induction t arbitrary: n rule: tree_nodes.induct)
  case (1 v l r)
  show ?case
  proof (cases "Some v = g")
    case True
    with 1(3,4) show ?thesis by auto
  next
    case False
    with 1(3) have nc: "\<not> limit \<le> int (depth n)" by (auto split: if_splits)
    from 1(3) False nc
    consider b where "r = Some b" "visit f g limit b (child_node f n b) = Found m"
      | a where "l = Some a" "visit f g limit a (child_node f n a) = Found m"
      by (auto dest!: after_Found split: option.splits)
    then show ?thesis
    proof cases
      case 1
      then show ?thesis using "1.IH"(2) by (simp add: state_child_node)
    next
      case 2
      then show ?thesis using "1.IH"(1) by (simp add: state_child_node)
    qed
  qed
qed

lemma visit_Found_witness:
  "visit f g limit t n = Found m \<Longrightarrow> state n = Tree t \<Longrightarrow>
   path_witness init n \<Longrightarrow> int (depth n) \<le> max 0 limit \<Longrightarrow>
   path_witness init m \<and> int (depth m) \<le> max 0 limit"
proof (induction t arbitrary: n rule: tree_nodes.induct)
  case (1 v l r)
  show ?case
  proof (cases "Some v = g")
    case True
    with 1(3,5,6) show ?thesis by auto
  next
    case False
    with 1(3) have nc: "\<not> limit \<le> int (depth n)" by (auto split: if_splits)
    have pw: "path_witness init (child_node f n c)" if "l = Some c \<or> r = Some c" for c
      using that 1(4,5) by (auto simp: child_node_def)
    have dp: "int (depth (child_node f n c)) \<le> max 0 limit" for c
      using nc by (simp add: depth_child_node)
    from 1(3) False nc
    consider b where "r = Some b" "visit f g limit b (child_node f n b) = Found m"
      | a where "l = Some a" "visit f g limit a (child_node f n a) = Found m"
      by (auto dest!: after_Found split: option.splits)
    then show ?thesis
    proof cases
      case 1
      then show ?thesis using "1.IH"(2)[OF 1(1) 1(2) state_child_node pw dp] by simp
    next
      case 2
      then show ?thesis using "1.IH"(1)[OF 2(1) 2(2) state_child_node pw dp] by simp
    qed
  qed
qed

lemma visit_popped_no_goal:
  "\<not> is_found (visit f g limit t n) \<Longrightarrow> state n = Tree t \<Longrightarrow>
   \<forall>m\<in>set (visit_popped f g limit t n). \<exists>s. state m = Tree s \<and> Some (node_value s) \<noteq> g"
proof (induction t arbitrary: n rule: tree_nodes.induct)
  case (1 v l r)
  from 1(3) have ng: "Some v \<noteq> g" by (auto split: if_splits)
  show ?case
  proof (cases "limit \<le> int (depth n)")
    case True
    with ng 1(4) show ?thesis by simp
  next
    case False
    with 1(3) ng have
      nr: "\<not> is_found (case r of None \<Rightarrow> Exhausted
                        | Some b \<Rightarrow> visit f g limit b (child_node f n b))" and
      nl: "\<not> is_found (case l of None \<Rightarrow> Exhausted
                        | Some a \<Rightarrow> visit f g limit a (child_node f n a))"
      by (simp_all add: is_found_after)
    have L: "\<forall>m\<in>set (case l of None \<Rightarrow> []
                       | Some a \<Rightarrow> visit_popped f g limit a (child_node f n a)).
               \<exists>s. state m = Tree s \<and> Some (node_value s) \<noteq> g"
      using 1(1) nl by (cases l) (simp_all add: state_child_node)
    have R: "\<forall>m\<in>set (case r of None \<Rightarrow> []
                       | Some b \<Rightarrow> visit_popped f g limit b (child_node f n b)).
               \<exists>s. state m = Tree s \<and> Some (node_value s) \<noteq> g"
      using 1(2) nr by (cases r) (simp_all add: state_child_node)
    from False ng nr 1(4) L R show ?thesis by auto
  qed
qed

lemma visit_cut_iff:
  "\<not> is_found (visit f g limit t n) \<Longrightarrow>
   (visit f g limit t n = Cut) =
   (\<exists>m\<in>set (visit_popped f g limit t n). limit \<le> int (depth m))"
proof (induction t arbitrary: n rule: tree_nodes.induct)
  case (1 v l r)
  from 1(3) have ng: "Some v \<noteq> g" by (auto split: if_splits)
  show ?case
  proof (cases "limit \<le> int (depth n)")
    case True
    with ng show ?thesis by simp
  next
    case False
    with 1(3) ng have
      nr: "\<not> is_found (case r of None \<Rightarrow> Exhausted
                        | Some b \<Rightarrow> visit f g limit b (child_node f n b))" and
      nl: "\<not> is_found (case l of None \<Rightarrow> Exhausted
                        | Some a \<Rightarrow> visit f g limit a (child_node f n a))"
      by (simp_all add: is_found_after)
    have L: "((case l of None \<Rightarrow> Exhausted
               | Some a \<Rightarrow> visit f g limit a (child_node f n a)) = Cut) =
             (\<exists>m\<in>set (case l of None \<Rightarrow> []
                       | Some a \<Rightarrow> visit_popped f g limit a (child_node f n a)).
                limit \<le> int (depth m))"
      using 1(1) nl by (cases l) simp_all
    have R: "((case r of None \<Rightarrow> Exhausted
               | Some b \<Rightarrow> visit f g limit b (child_node f n b)) = Cut) =
             (\<exists>m\<in>set (case r of None \<Rightarrow> []
                       | Some b \<Rightarrow> visit_popped f g limit b (child_node f n b)).
                limit \<le> int (depth m))"
      using 1(2) nr by (cases r) simp_all
    have "(visit f g limit (BinaryTreeNode v l r) n = Cut) =
          ((case r of None \<Rightarrow> Exhausted
               | Some b \<Rightarrow> visit f g limit b (child_node f n b)) = Cut \<or>
           (case l of None \<Rightarrow> Exhausted
               | Some a \<Rightarrow> visit f g limit a (child_node f n a)) = Cut)"
      using False ng nr nl by (simp add: after_Cut is_found_after)
    with False ng nr L R show ?thesis by auto
  qed
qed

lemma visit_pushed_depth:
  "\<forall>m\<in>set (visit_pushed f g limit t n).
     int (depth m) \<le> limit \<and> (\<exists>p. parent m = Some p \<and> int (depth p) < limit)"
proof (induction t arbitrary: n rule: tree_nodes.induct)
  case (1 v l r)
  let ?P = "\<lambda>m. int (depth m) \<le> limit \<and> (\<exists>p. parent m = Some p \<and> int (depth p) < limit)"
  have L: "\<forall>m\<in>set (case l of None \<Rightarrow> []
                     | Some a \<Rightarrow> visit_pushed f g limit a (child_node f n a)). ?P m"
    using 1(1) by (cases l) simp_all
  have R: "\<forall>m\<in>set (case r of None \<Rightarrow> []
                     | Some b \<Rightarrow> visit_pushed f g limit b (child_node f n b)). ?P m"
    using 1(2) by (cases r) simp_all
  have C: "?P (child_node f n c)" if "\<not> limit \<le> int (depth n)" for c
    using that by (simp add: child_node_def)
  from L R C show ?case by auto
qed

section \<open>The outcome of a search\<close>

lemma sentinel_no_goal: "\<not> goal_node problem failure" "\<not> goal_node problem cutoff"
  by (simp_all add: goal_node_def is_goal_def failure_def cutoff_def)

lemma failure_not_cutoff: "failure \<noteq> cutoff"
  by (simp add: failure_def cutoff_def)

lemma outcome_goal_iff:
  "state n = Tree t \<Longrightarrow>
   goal_node problem
     (case visit f (goal problem) limit t n of
        Found m \<Rightarrow> m | Exhausted \<Rightarrow> failure | Cut \<Rightarrow> cutoff) =
   is_found (visit f (goal problem) limit t n)"
proof (cases "visit f (goal problem) limit t n")
  case (Found m)
  assume "state n = Tree t"
  from visit_Found_goal[OF Found this] Found show ?thesis
    by (auto simp: goal_node_def is_goal_def)
qed (simp_all add: sentinel_no_goal)

lemma robot_trace_outcome:
  "map_option fst (robot_search_trace problem limit) = robot_depth_limited_search problem limit"
  by (cases "initial problem" rule: state_value_tree_cases)
     (simp_all add: robot_search_trace_def robot_depth_limited_search_def robot_trace_root
        robot_search_root search_trace_no_tree search_loop_no_tree)

lemma warehouse_trace_outcome:
  "map_option fst (warehouse_search_trace problem limit) =
   warehouse_depth_limited_search problem limit"
  by (cases "initial problem" rule: state_value_tree_cases)
     (simp_all add: warehouse_search_trace_def warehouse_depth_limited_search_def
        warehouse_trace_root warehouse_search_root search_trace_no_tree search_loop_no_tree)

lemma search_found_iff:
  assumes "int (height t) \<le> limit"
  shows "goal_node problem
           (case visit f (goal problem) limit t (Node (Tree t) None None 0) of
              Found m \<Rightarrow> m | Exhausted \<Rightarrow> failure | Cut \<Rightarrow> cutoff) =
         (\<exists>s\<in>set (tree_nodes t). Some (node_value s) = goal problem)"
proof -
  from assms have "height t \<le> nat limit" by simp
  then have "nodes_within (nat limit) t = tree_nodes t" by (rule height_nodes_within)
  then show ?thesis by (simp add: outcome_goal_iff visit_found_iff)
qed

text \<open>
  C1. On a tree, with a limit that is at least the height of the tree (counted in edges),
  \<open>depth_limited_search\<close> returns a goal node exactly when some node of the tree carries
  the goal value; in both modules.
\<close>

theorem goal_found_iff_present:
  "initial problem = Tree t \<Longrightarrow> int (height t) \<le> limit \<Longrightarrow>
   ((\<exists>n. robot_depth_limited_search problem limit = Some (Inr n) \<and> goal_node problem n) =
    (\<exists>s\<in>set (tree_nodes t). Some (node_value s) = goal problem)) \<and>
   ((\<exists>n. warehouse_depth_limited_search problem limit = Some (Inr n) \<and> goal_node problem n) =
    (\<exists>s\<in>set (tree_nodes t). Some (node_value s) = goal problem))"
  by (simp add: robot_depth_limited_search_def warehouse_depth_limited_search_def
        robot_search_root warehouse_search_root search_found_iff)

theorem goal_found_iff_present_witness:
  "initial \<lparr>initial = Tree example_tree, goal = Some 4\<rparr> = Tree example_tree \<and>
   int (height example_tree) \<le> 2 \<and>
   (\<exists>s\<in>set (tree_nodes example_tree). Some (node_value s) = Some 4) \<and>
   (\<exists>n. robot_depth_limited_search \<lparr>initial = Tree example_tree, goal = Some 4\<rparr> 2 =
          Some (Inr n) \<and> goal_node \<lparr>initial = Tree example_tree, goal = Some 4\<rparr> n) \<and>
   (\<exists>n. warehouse_depth_limited_search \<lparr>initial = Tree example_tree, goal = Some 4\<rparr> 2 =
          Some (Inr n) \<and> goal_node \<lparr>initial = Tree example_tree, goal = Some 4\<rparr> n)"
proof -
  have h: "int (height example_tree) \<le> 2" by (simp add: example_tree_def)
  have p: "\<exists>s\<in>set (tree_nodes example_tree). Some (node_value s) = Some (4::int)"
    by (simp add: example_tree_def)
  from goal_found_iff_present
         [of "\<lparr>initial = Tree example_tree, goal = Some 4\<rparr>" example_tree 2] h p
  show ?thesis by simp
qed

section \<open>Failure and cutoff\<close>

lemma search_sentinel:
  assumes "state n = Tree t"
    and "\<not> goal_node problem
             (case visit f (goal problem) limit t n of
                Found m \<Rightarrow> m | Exhausted \<Rightarrow> failure | Cut \<Rightarrow> cutoff)"
  shows "(\<forall>m\<in>set (visit_popped f (goal problem) limit t n). \<not> goal_node problem m) \<and>
         ((\<forall>m\<in>set (visit_popped f (goal problem) limit t n). int (depth m) < limit) \<longrightarrow>
            (case visit f (goal problem) limit t n of
                Found m \<Rightarrow> m | Exhausted \<Rightarrow> failure | Cut \<Rightarrow> cutoff) = failure) \<and>
         ((\<exists>m\<in>set (visit_popped f (goal problem) limit t n). limit \<le> int (depth m)) \<longrightarrow>
            (case visit f (goal problem) limit t n of
                Found m \<Rightarrow> m | Exhausted \<Rightarrow> failure | Cut \<Rightarrow> cutoff) = cutoff)"
proof -
  from assms have nf: "\<not> is_found (visit f (goal problem) limit t n)"
    by (simp add: outcome_goal_iff)
  have a: "\<forall>m\<in>set (visit_popped f (goal problem) limit t n). \<not> goal_node problem m"
    using visit_popped_no_goal[OF nf assms(1)]
    by (auto simp: goal_node_def is_goal_def)
  note c = visit_cut_iff[OF nf]
  show ?thesis
  proof (cases "visit f (goal problem) limit t n")
    case (Found m)
    with nf show ?thesis by simp
  next
    case Exhausted
    with a c show ?thesis by auto
  next
    case Cut
    with a c show ?thesis by (auto simp: not_less)
  qed
qed

text \<open>
  C2. On a tree the search returns; when what it returns is not a goal node, no popped node
  was a goal node, the result is \<open>failure\<close> if every popped node was at a depth below the
  limit (no node was cut), and it is \<open>cutoff\<close> if some popped node was at a depth greater
  than or equal to the limit. In both modules.
\<close>

theorem failure_or_cutoff:
  "initial problem = Tree t \<Longrightarrow>
   (\<exists>r pushed popped.
      robot_search_trace problem limit = Some (Inr r, pushed, popped) \<and>
      robot_depth_limited_search problem limit = Some (Inr r) \<and>
      (\<not> goal_node problem r \<longrightarrow>
         (\<forall>n\<in>set popped. \<not> goal_node problem n) \<and>
         ((\<forall>n\<in>set popped. int (depth n) < limit) \<longrightarrow> r = failure) \<and>
         ((\<exists>n\<in>set popped. limit \<le> int (depth n)) \<longrightarrow> r = cutoff))) \<and>
   (\<exists>r pushed popped.
      warehouse_search_trace problem limit = Some (Inr r, pushed, popped) \<and>
      warehouse_depth_limited_search problem limit = Some (Inr r) \<and>
      (\<not> goal_node problem r \<longrightarrow>
         (\<forall>n\<in>set popped. \<not> goal_node problem n) \<and>
         ((\<forall>n\<in>set popped. int (depth n) < limit) \<longrightarrow> r = failure) \<and>
         ((\<exists>n\<in>set popped. limit \<le> int (depth n)) \<longrightarrow> r = cutoff)))"
proof -
  assume i: "initial problem = Tree t"
  let ?root = "Node (Tree t) None None 0"
  have s: "state ?root = Tree t" by simp
  have r1: "robot_search_trace problem limit =
      Some (Inr (case visit (\<lambda>n. 0) (goal problem) limit t ?root of
                   Found m \<Rightarrow> m | Exhausted \<Rightarrow> failure | Cut \<Rightarrow> cutoff),
            ?root # visit_pushed (\<lambda>n. 0) (goal problem) limit t ?root,
            visit_popped (\<lambda>n. 0) (goal problem) limit t ?root)"
    by (simp add: robot_search_trace_def i robot_trace_root)
  have r2: "robot_depth_limited_search problem limit =
      Some (Inr (case visit (\<lambda>n. 0) (goal problem) limit t ?root of
                   Found m \<Rightarrow> m | Exhausted \<Rightarrow> failure | Cut \<Rightarrow> cutoff))"
    by (simp add: robot_depth_limited_search_def i robot_search_root)
  have w1: "warehouse_search_trace problem limit =
      Some (Inr (case visit (\<lambda>n. path_cost n + 1) (goal problem) limit t ?root of
                   Found m \<Rightarrow> m | Exhausted \<Rightarrow> failure | Cut \<Rightarrow> cutoff),
            ?root # visit_pushed (\<lambda>n. path_cost n + 1) (goal problem) limit t ?root,
            visit_popped (\<lambda>n. path_cost n + 1) (goal problem) limit t ?root)"
    by (simp add: warehouse_search_trace_def i warehouse_trace_root)
  have w2: "warehouse_depth_limited_search problem limit =
      Some (Inr (case visit (\<lambda>n. path_cost n + 1) (goal problem) limit t ?root of
                   Found m \<Rightarrow> m | Exhausted \<Rightarrow> failure | Cut \<Rightarrow> cutoff))"
    by (simp add: warehouse_depth_limited_search_def i warehouse_search_root)
  have r3: "\<not> goal_node problem
                (case visit (\<lambda>n. 0) (goal problem) limit t ?root of
                   Found m \<Rightarrow> m | Exhausted \<Rightarrow> failure | Cut \<Rightarrow> cutoff) \<longrightarrow>
     (\<forall>m\<in>set (visit_popped (\<lambda>n. 0) (goal problem) limit t ?root). \<not> goal_node problem m) \<and>
     ((\<forall>m\<in>set (visit_popped (\<lambda>n. 0) (goal problem) limit t ?root). int (depth m) < limit) \<longrightarrow>
        (case visit (\<lambda>n. 0) (goal problem) limit t ?root of
           Found m \<Rightarrow> m | Exhausted \<Rightarrow> failure | Cut \<Rightarrow> cutoff) = failure) \<and>
     ((\<exists>m\<in>set (visit_popped (\<lambda>n. 0) (goal problem) limit t ?root). limit \<le> int (depth m)) \<longrightarrow>
        (case visit (\<lambda>n. 0) (goal problem) limit t ?root of
           Found m \<Rightarrow> m | Exhausted \<Rightarrow> failure | Cut \<Rightarrow> cutoff) = cutoff)"
    by (rule impI) (rule search_sentinel[OF s])
  have w3: "\<not> goal_node problem
                (case visit (\<lambda>n. path_cost n + 1) (goal problem) limit t ?root of
                   Found m \<Rightarrow> m | Exhausted \<Rightarrow> failure | Cut \<Rightarrow> cutoff) \<longrightarrow>
     (\<forall>m\<in>set (visit_popped (\<lambda>n. path_cost n + 1) (goal problem) limit t ?root).
         \<not> goal_node problem m) \<and>
     ((\<forall>m\<in>set (visit_popped (\<lambda>n. path_cost n + 1) (goal problem) limit t ?root).
         int (depth m) < limit) \<longrightarrow>
        (case visit (\<lambda>n. path_cost n + 1) (goal problem) limit t ?root of
           Found m \<Rightarrow> m | Exhausted \<Rightarrow> failure | Cut \<Rightarrow> cutoff) = failure) \<and>
     ((\<exists>m\<in>set (visit_popped (\<lambda>n. path_cost n + 1) (goal problem) limit t ?root).
         limit \<le> int (depth m)) \<longrightarrow>
        (case visit (\<lambda>n. path_cost n + 1) (goal problem) limit t ?root of
           Found m \<Rightarrow> m | Exhausted \<Rightarrow> failure | Cut \<Rightarrow> cutoff) = cutoff)"
    by (rule impI) (rule search_sentinel[OF s])
  from r1 r2 r3 have r: "\<exists>r pushed popped.
      robot_search_trace problem limit = Some (Inr r, pushed, popped) \<and>
      robot_depth_limited_search problem limit = Some (Inr r) \<and>
      (\<not> goal_node problem r \<longrightarrow>
         (\<forall>n\<in>set popped. \<not> goal_node problem n) \<and>
         ((\<forall>n\<in>set popped. int (depth n) < limit) \<longrightarrow> r = failure) \<and>
         ((\<exists>n\<in>set popped. limit \<le> int (depth n)) \<longrightarrow> r = cutoff))"
    by (intro exI conjI)
  from w1 w2 w3 have w: "\<exists>r pushed popped.
      warehouse_search_trace problem limit = Some (Inr r, pushed, popped) \<and>
      warehouse_depth_limited_search problem limit = Some (Inr r) \<and>
      (\<not> goal_node problem r \<longrightarrow>
         (\<forall>n\<in>set popped. \<not> goal_node problem n) \<and>
         ((\<forall>n\<in>set popped. int (depth n) < limit) \<longrightarrow> r = failure) \<and>
         ((\<exists>n\<in>set popped. limit \<le> int (depth n)) \<longrightarrow> r = cutoff))"
    by (intro exI conjI)
  from r w show ?thesis by (rule conjI)
qed

theorem failure_or_cutoff_witness:
  "initial \<lparr>initial = Tree example_tree, goal = Some 99\<rparr> = Tree example_tree \<and>
   robot_depth_limited_search \<lparr>initial = Tree example_tree, goal = Some 99\<rparr> 5 =
     Some (Inr failure) \<and>
   \<not> goal_node \<lparr>initial = Tree example_tree, goal = Some 99\<rparr> failure \<and>
   (\<exists>pushed popped.
      robot_search_trace \<lparr>initial = Tree example_tree, goal = Some 99\<rparr> 5 =
        Some (Inr failure, pushed, popped) \<and>
      (\<forall>n\<in>set popped. int (depth n) < 5)) \<and>
   initial \<lparr>initial = Tree example_tree, goal = Some 4\<rparr> = Tree example_tree \<and>
   warehouse_depth_limited_search \<lparr>initial = Tree example_tree, goal = Some 4\<rparr> 1 =
     Some (Inr cutoff) \<and>
   \<not> goal_node \<lparr>initial = Tree example_tree, goal = Some 4\<rparr> cutoff \<and>
   (\<exists>pushed popped.
      warehouse_search_trace \<lparr>initial = Tree example_tree, goal = Some 4\<rparr> 1 =
        Some (Inr cutoff, pushed, popped) \<and>
      (\<exists>n\<in>set popped. 1 \<le> int (depth n)))"
proof -
  let ?P = "\<lparr>initial = Tree example_tree, goal = Some 99\<rparr>"
  let ?Q = "\<lparr>initial = Tree example_tree, goal = Some 4\<rparr>"
  have e1: "robot_depth_limited_search ?P 5 = Some (Inr failure)"
    by (simp add: robot_depth_limited_search_def robot_search_root)
       (simp add: example_tree_def child_node_def)
  have e2: "warehouse_depth_limited_search ?Q 1 = Some (Inr cutoff)"
    by (simp add: warehouse_depth_limited_search_def warehouse_search_root)
       (simp add: example_tree_def child_node_def)
  have i1: "initial ?P = Tree example_tree" and i2: "initial ?Q = Tree example_tree"
    by simp_all
  from failure_or_cutoff[OF i1, of 5] obtain r pu po where
    a: "robot_search_trace ?P 5 = Some (Inr r, pu, po)" and
    b: "robot_depth_limited_search ?P 5 = Some (Inr r)" and
    c: "\<not> goal_node ?P r \<longrightarrow>
         (\<forall>n\<in>set po. \<not> goal_node ?P n) \<and>
         ((\<forall>n\<in>set po. int (depth n) < 5) \<longrightarrow> r = failure) \<and>
         ((\<exists>n\<in>set po. 5 \<le> int (depth n)) \<longrightarrow> r = cutoff)"
    by blast
  from b e1 have r: "r = failure" by simp
  with c have "\<forall>n\<in>set po. int (depth n) < 5"
    using sentinel_no_goal(1)[of ?P] failure_not_cutoff by (auto simp: not_le)
  with a r have p1: "\<exists>pushed popped.
      robot_search_trace ?P 5 = Some (Inr failure, pushed, popped) \<and>
      (\<forall>n\<in>set popped. int (depth n) < 5)"
    by blast
  from failure_or_cutoff[OF i2, of 1] obtain r' pu' po' where
    a': "warehouse_search_trace ?Q 1 = Some (Inr r', pu', po')" and
    b': "warehouse_depth_limited_search ?Q 1 = Some (Inr r')" and
    c': "\<not> goal_node ?Q r' \<longrightarrow>
         (\<forall>n\<in>set po'. \<not> goal_node ?Q n) \<and>
         ((\<forall>n\<in>set po'. int (depth n) < 1) \<longrightarrow> r' = failure) \<and>
         ((\<exists>n\<in>set po'. 1 \<le> int (depth n)) \<longrightarrow> r' = cutoff)"
    by blast
  from b' e2 have r': "r' = cutoff" by simp
  with c' have "\<not> (\<forall>n\<in>set po'. int (depth n) < 1)"
    using sentinel_no_goal(2)[of ?Q] failure_not_cutoff by blast
  then have "\<exists>n\<in>set po'. 1 \<le> int (depth n)"
    by (meson not_less)
  with a' r' have p2: "\<exists>pushed popped.
      warehouse_search_trace ?Q 1 = Some (Inr cutoff, pushed, popped) \<and>
      (\<exists>n\<in>set popped. 1 \<le> int (depth n))"
    by blast
  from i1 e1 sentinel_no_goal(1)[of ?P] p1 i2 e2 sentinel_no_goal(2)[of ?Q] p2
  show ?thesis by (intro conjI)
qed

section \<open>The frontier and the depth limit\<close>

lemma max_trace_root:
  "depth_limited_search_max_trace problem limit [Node (Tree t) None None 0] MinusInf
     [Node (Tree t) None None 0] =
   Some (Inr (foldl update_max MinusInf (map node_value (visit_order (nat limit) t))),
         Node (Tree t) None None 0 #
           visit_pushed (\<lambda>n. 0) None limit t (Node (Tree t) None None 0))"
  using max_trace_visit[where n="Node (Tree t) None None 0" and t=t and fs="[]"
                          and problem=problem and limit=limit and m=MinusInf
                          and pu="[Node (Tree t) None None 0]"]
  by (simp add: max_trace_empty)

lemma max_loop_root:
  "depth_limited_search_max_loop problem limit [Node (Tree t) None None 0] MinusInf =
   Some (Inr (foldl update_max MinusInf (map node_value (visit_order (nat limit) t))))"
  using max_loop_visit[where n="Node (Tree t) None None 0" and t=t and fs="[]"
                         and problem=problem and limit=limit and m=MinusInf]
  by (simp add: max_loop_empty)

lemma max_trace_outcome:
  "map_option fst (max_search_trace problem limit) =
   depth_limited_search_max_loop problem limit [Node (initial problem) None None 0] MinusInf"
proof (cases "initial problem" rule: state_value_tree_cases)
  case (1 t)
  then show ?thesis by (simp add: max_search_trace_def max_trace_root max_loop_root)
next
  case 2
  then have "state_payload (initial problem) = Inl AttributeError"
    by (cases "initial problem") (auto simp: state_payload_def)
  then show ?thesis
    using max_trace_error[where fs="[]" and n="Node (initial problem) None None 0"
                            and e=AttributeError and problem=problem and limit=limit]
      max_loop_error[where fs="[]" and n="Node (initial problem) None None 0"
                            and e=AttributeError and problem=problem and limit=limit]
    by (simp add: max_search_trace_def)
qed

text \<open>
  C7. With a limit that is not negative, every node ever pushed onto the frontier, in
  \<open>depth_limited_search\<close> of both modules and in \<open>depth_limited_search_max\<close>, is at depth at
  most \<open>limit\<close>, and every pushed node other than the root is the child of a node at depth
  below \<open>limit\<close>: a node at depth \<open>limit\<close> or more is never expanded.
\<close>

theorem frontier_within_limit:
  "0 \<le> limit \<Longrightarrow> initial problem = Tree t \<Longrightarrow> initial q = Tree u \<Longrightarrow>
   (\<exists>r pushed popped.
      robot_search_trace problem limit = Some (r, pushed, popped) \<and>
      (\<forall>n\<in>set pushed. int (depth n) \<le> limit \<and>
         (\<forall>p. parent n = Some p \<longrightarrow> int (depth p) < limit))) \<and>
   (\<exists>r pushed popped.
      warehouse_search_trace problem limit = Some (r, pushed, popped) \<and>
      (\<forall>n\<in>set pushed. int (depth n) \<le> limit \<and>
         (\<forall>p. parent n = Some p \<longrightarrow> int (depth p) < limit))) \<and>
   (\<exists>r pushed.
      max_search_trace q limit = Some (r, pushed) \<and>
      (\<forall>n\<in>set pushed. int (depth n) \<le> limit \<and>
         (\<forall>p. parent n = Some p \<longrightarrow> int (depth p) < limit)))"
proof -
  assume l: "0 \<le> limit" and i: "initial problem = Tree t" and j: "initial q = Tree u"
  have P: "\<forall>n\<in>set (Node (Tree s) None None 0 # visit_pushed f g limit s (Node (Tree s) None None 0)).
             int (depth n) \<le> limit \<and> (\<forall>p. parent n = Some p \<longrightarrow> int (depth p) < limit)"
    for f g s
    using visit_pushed_depth[of f g limit s "Node (Tree s) None None 0"] l by auto
  have r: "robot_search_trace problem limit =
      Some (Inr (case visit (\<lambda>n. 0) (goal problem) limit t (Node (Tree t) None None 0) of
                   Found m \<Rightarrow> m | Exhausted \<Rightarrow> failure | Cut \<Rightarrow> cutoff),
            Node (Tree t) None None 0 #
              visit_pushed (\<lambda>n. 0) (goal problem) limit t (Node (Tree t) None None 0),
            visit_popped (\<lambda>n. 0) (goal problem) limit t (Node (Tree t) None None 0))"
    by (simp add: robot_search_trace_def i robot_trace_root)
  have w: "warehouse_search_trace problem limit =
      Some (Inr (case visit (\<lambda>n. path_cost n + 1) (goal problem) limit t
                        (Node (Tree t) None None 0) of
                   Found m \<Rightarrow> m | Exhausted \<Rightarrow> failure | Cut \<Rightarrow> cutoff),
            Node (Tree t) None None 0 #
              visit_pushed (\<lambda>n. path_cost n + 1) (goal problem) limit t
                (Node (Tree t) None None 0),
            visit_popped (\<lambda>n. path_cost n + 1) (goal problem) limit t
              (Node (Tree t) None None 0))"
    by (simp add: warehouse_search_trace_def i warehouse_trace_root)
  have m: "max_search_trace q limit =
      Some (Inr (foldl update_max MinusInf (map node_value (visit_order (nat limit) u))),
            Node (Tree u) None None 0 #
              visit_pushed (\<lambda>n. 0) None limit u (Node (Tree u) None None 0))"
    by (simp add: max_search_trace_def j max_trace_root)
  from r P[of t "\<lambda>n. 0" "goal problem"] have 1: "\<exists>r pushed popped.
      robot_search_trace problem limit = Some (r, pushed, popped) \<and>
      (\<forall>n\<in>set pushed. int (depth n) \<le> limit \<and>
         (\<forall>p. parent n = Some p \<longrightarrow> int (depth p) < limit))"
    by (intro exI conjI)
  from w P[of t "\<lambda>n. path_cost n + 1" "goal problem"] have 2: "\<exists>r pushed popped.
      warehouse_search_trace problem limit = Some (r, pushed, popped) \<and>
      (\<forall>n\<in>set pushed. int (depth n) \<le> limit \<and>
         (\<forall>p. parent n = Some p \<longrightarrow> int (depth p) < limit))"
    by (intro exI conjI)
  from m P[of u "\<lambda>n. 0" None] have 3: "\<exists>r pushed.
      max_search_trace q limit = Some (r, pushed) \<and>
      (\<forall>n\<in>set pushed. int (depth n) \<le> limit \<and>
         (\<forall>p. parent n = Some p \<longrightarrow> int (depth p) < limit))"
    by (intro exI conjI)
  from 1 2 3 show ?thesis by (intro conjI)
qed

theorem frontier_within_limit_witness:
  "(0::int) \<le> 1 \<and>
   initial \<lparr>initial = Tree example_tree, goal = Some 4\<rparr> = Tree example_tree \<and>
   initial \<lparr>initial = Tree investment_tree\<rparr> = Tree investment_tree \<and>
   (\<exists>r pushed popped.
      robot_search_trace \<lparr>initial = Tree example_tree, goal = Some 4\<rparr> 1 =
        Some (r, pushed, popped) \<and>
      (\<forall>n\<in>set pushed. int (depth n) \<le> 1 \<and>
         (\<forall>p. parent n = Some p \<longrightarrow> int (depth p) < 1))) \<and>
   (\<exists>r pushed popped.
      warehouse_search_trace \<lparr>initial = Tree example_tree, goal = Some 4\<rparr> 1 =
        Some (r, pushed, popped) \<and>
      (\<forall>n\<in>set pushed. int (depth n) \<le> 1 \<and>
         (\<forall>p. parent n = Some p \<longrightarrow> int (depth p) < 1))) \<and>
   (\<exists>r pushed.
      max_search_trace \<lparr>initial = Tree investment_tree\<rparr> 1 = Some (r, pushed) \<and>
      (\<forall>n\<in>set pushed. int (depth n) \<le> 1 \<and>
         (\<forall>p. parent n = Some p \<longrightarrow> int (depth p) < 1)))"
proof -
  have l: "(0::int) \<le> 1" by simp
  have i: "initial \<lparr>initial = Tree example_tree, goal = Some 4\<rparr> = Tree example_tree"
    by simp
  have j: "initial \<lparr>initial = Tree investment_tree\<rparr> = Tree investment_tree"
    by simp
  note fw = frontier_within_limit[OF l i j]
  from l i j fw[THEN conjunct1] fw[THEN conjunct2, THEN conjunct1]
    fw[THEN conjunct2, THEN conjunct2]
  show ?thesis by (intro conjI)
qed

section \<open>Goal nodes as path witnesses\<close>

text \<open>
  C8. A goal node that \<open>depth_limited_search\<close> returns (in either module) is a path
  witness: its parent chain leads to a node without parent that holds the initial state
  of the problem, each state on the chain being the left or right child of its parent's
  state; it is neither sentinel; and with a limit that is not negative its depth is at
  most the limit.
\<close>

theorem goal_node_is_path_witness:
  "robot_depth_limited_search problem limit = Some (Inr n) \<or>
   warehouse_depth_limited_search problem limit = Some (Inr n) \<Longrightarrow>
   goal_node problem n \<Longrightarrow>
   path_witness (initial problem) n \<and> n \<noteq> failure \<and> n \<noteq> cutoff \<and>
   (0 \<le> limit \<longrightarrow> int (depth n) \<le> limit)"
proof -
  assume r: "robot_depth_limited_search problem limit = Some (Inr n) \<or>
             warehouse_depth_limited_search problem limit = Some (Inr n)"
    and g: "goal_node problem n"
  have s: "n \<noteq> failure \<and> n \<noteq> cutoff"
    using g by (rule goal_node_not_sentinel)
  obtain t where i: "initial problem = Tree t"
    using r
    by (cases "initial problem" rule: state_value_tree_cases)
       (auto simp: robot_depth_limited_search_def warehouse_depth_limited_search_def
          search_loop_no_tree)
  let ?root = "Node (Tree t) None None 0"
  from r i s obtain f where v: "visit f (goal problem) limit t ?root = Found n"
    by (auto simp: robot_depth_limited_search_def warehouse_depth_limited_search_def
          robot_search_root warehouse_search_root split: verdict.splits)
  have "path_witness (initial problem) n \<and> int (depth n) \<le> max 0 limit"
    by (rule visit_Found_witness[OF v]) (simp_all add: i)
  with s show ?thesis by auto
qed

theorem goal_node_is_path_witness_witness:
  "(robot_depth_limited_search \<lparr>initial = Tree example_tree, goal = Some 4\<rparr> 2 =
      Some (Inr (Node (Tree (BinaryTreeNode 4 None None))
             (Some (Node (Tree (BinaryTreeNode 2 None (Some (BinaryTreeNode 4 None None))))
                      (Some (Node (Tree example_tree) None None 0))
                      (Some (BinaryTreeNode 2 None (Some (BinaryTreeNode 4 None None)))) 0))
             (Some (BinaryTreeNode 4 None None)) 0))) \<and>
   goal_node \<lparr>initial = Tree example_tree, goal = Some 4\<rparr>
     (Node (Tree (BinaryTreeNode 4 None None))
             (Some (Node (Tree (BinaryTreeNode 2 None (Some (BinaryTreeNode 4 None None))))
                      (Some (Node (Tree example_tree) None None 0))
                      (Some (BinaryTreeNode 2 None (Some (BinaryTreeNode 4 None None)))) 0))
             (Some (BinaryTreeNode 4 None None)) 0) \<and>
   path_witness (Tree example_tree)
     (Node (Tree (BinaryTreeNode 4 None None))
             (Some (Node (Tree (BinaryTreeNode 2 None (Some (BinaryTreeNode 4 None None))))
                      (Some (Node (Tree example_tree) None None 0))
                      (Some (BinaryTreeNode 2 None (Some (BinaryTreeNode 4 None None)))) 0))
             (Some (BinaryTreeNode 4 None None)) 0) \<and>
   (0::int) \<le> 2 \<and>
   int (depth (Node (Tree (BinaryTreeNode 4 None None))
             (Some (Node (Tree (BinaryTreeNode 2 None (Some (BinaryTreeNode 4 None None))))
                      (Some (Node (Tree example_tree) None None 0))
                      (Some (BinaryTreeNode 2 None (Some (BinaryTreeNode 4 None None)))) 0))
             (Some (BinaryTreeNode 4 None None)) 0)) \<le> 2"
proof -
  let ?P = "\<lparr>initial = Tree example_tree, goal = Some 4\<rparr>"
  let ?n = "Node (Tree (BinaryTreeNode 4 None None))
             (Some (Node (Tree (BinaryTreeNode 2 None (Some (BinaryTreeNode 4 None None))))
                      (Some (Node (Tree example_tree) None None 0))
                      (Some (BinaryTreeNode 2 None (Some (BinaryTreeNode 4 None None)))) 0))
             (Some (BinaryTreeNode 4 None None)) 0"
  have e: "robot_depth_limited_search ?P 2 = Some (Inr ?n)"
    by (simp add: robot_depth_limited_search_def robot_search_root)
       (simp add: example_tree_def child_node_def)
  have g: "goal_node ?P ?n"
    by (simp add: goal_node_def is_goal_def)
  from goal_node_is_path_witness[OF disjI1[OF e] g] e g
  show ?thesis by simp
qed

section \<open>The two modules compared\<close>

lemma class_after:
  "verdict_class a = verdict_class a' \<Longrightarrow> verdict_class b = verdict_class b' \<Longrightarrow>
   verdict_class (after a b) = verdict_class (after a' b')"
  by (cases a; cases a'; cases b; cases b') (simp_all add: verdict_class_def)

lemma visit_class:
  "depth n = depth n' \<Longrightarrow> state n = state n' \<Longrightarrow>
   verdict_class (visit f g limit t n) = verdict_class (visit f' g limit t n')"
proof (induction t arbitrary: n n' rule: tree_nodes.induct)
  case (1 v l r)
  have L: "verdict_class (case l of None \<Rightarrow> Exhausted
                          | Some a \<Rightarrow> visit f g limit a (child_node f n a)) =
           verdict_class (case l of None \<Rightarrow> Exhausted
                          | Some a \<Rightarrow> visit f' g limit a (child_node f' n' a))"
    using 1(1)[of _ "child_node f n _" "child_node f' n' _"] 1(3)
    by (cases l) (simp_all add: depth_child_node state_child_node)
  have R: "verdict_class (case r of None \<Rightarrow> Exhausted
                          | Some b \<Rightarrow> visit f g limit b (child_node f n b)) =
           verdict_class (case r of None \<Rightarrow> Exhausted
                          | Some b \<Rightarrow> visit f' g limit b (child_node f' n' b))"
    using 1(2)[of _ "child_node f n _" "child_node f' n' _"] 1(3)
    by (cases r) (simp_all add: depth_child_node state_child_node)
  show ?case
    using 1(3,4) class_after[OF R L] by (simp add: verdict_class_def)
qed

lemma classify_outcome:
  "state n = Tree t \<Longrightarrow>
   classify (case visit f g limit t n of
               Found m \<Rightarrow> m | Exhausted \<Rightarrow> failure | Cut \<Rightarrow> cutoff) =
   verdict_class (visit f g limit t n)"
proof (cases "visit f g limit t n")
  case (Found m)
  assume "state n = Tree t"
  from visit_Found_goal[OF Found this] Found show ?thesis
    by (auto simp: classify_def verdict_class_def failure_def cutoff_def)
qed (simp_all add: classify_def verdict_class_def failure_not_cutoff[symmetric])

lemma actions_agree:
  "RoomNavigationProblem_actions problem s = WarehouseProblem_actions problem s"
  by (cases s)
     (auto simp: RoomNavigationProblem_actions_def WarehouseProblem_actions_def truthy_def
         split: option.splits)

text \<open>
  C9. For every problem and limit the two modules give the same outcome as their callers
  classify it: a goal node with the same state, \<open>failure\<close>, or \<open>cutoff\<close> (or the same
  exception when the initial state is not a tree node). The truth-value test of the robot
  module and the \<open>is not None\<close> test of the warehouse module give the same actions.
\<close>

theorem robot_warehouse_equivalent:
  "map_option (map_sum id classify) (robot_depth_limited_search problem limit) =
   map_option (map_sum id classify) (warehouse_depth_limited_search problem limit) \<and>
   RoomNavigationProblem_actions problem s = WarehouseProblem_actions problem s"
proof (rule conjI)
  show "map_option (map_sum id classify) (robot_depth_limited_search problem limit) =
        map_option (map_sum id classify) (warehouse_depth_limited_search problem limit)"
  proof (cases "initial problem" rule: state_value_tree_cases)
    case (1 t)
    have "verdict_class (visit (\<lambda>n. 0) (goal problem) limit t (Node (Tree t) None None 0)) =
          verdict_class (visit (\<lambda>n. path_cost n + 1) (goal problem) limit t
                           (Node (Tree t) None None 0))"
      by (rule visit_class) simp_all
    then show ?thesis
      by (simp add: robot_depth_limited_search_def warehouse_depth_limited_search_def 1
            robot_search_root warehouse_search_root classify_outcome)
  next
    case 2
    then show ?thesis
      by (simp add: robot_depth_limited_search_def warehouse_depth_limited_search_def
            search_loop_no_tree)
  qed
next
  show "RoomNavigationProblem_actions problem s = WarehouseProblem_actions problem s"
    by (rule actions_agree)
qed

section \<open>Path cost\<close>

lemma child_node_cost:
  "path_cost n = enat (depth n) \<Longrightarrow>
   path_cost (child_node (\<lambda>n. path_cost n + 1) n c) =
   enat (depth (child_node (\<lambda>n. path_cost n + 1) n c))"
  by (simp add: child_node_def plus_1_eSuc eSuc_enat)

lemma visit_pushed_subset:
  "set (visit_pushed f g limit (BinaryTreeNode v l r) n) \<subseteq>
     child_node f n ` set (children (BinaryTreeNode v l r)) \<union>
     set (case l of None \<Rightarrow> [] | Some a \<Rightarrow> visit_pushed f g limit a (child_node f n a)) \<union>
     set (case r of None \<Rightarrow> [] | Some b \<Rightarrow> visit_pushed f g limit b (child_node f n b))"
  by auto

lemma visit_pushed_cost:
  "path_cost n = enat (depth n) \<Longrightarrow>
   \<forall>m\<in>set (visit_pushed (\<lambda>n. path_cost n + 1) g limit t n). path_cost m = enat (depth m)"
proof (induction t arbitrary: n rule: tree_nodes.induct)
  case (1 v l r)
  let ?f = "\<lambda>n. path_cost n + 1"
  let ?Q = "\<lambda>m. path_cost m = enat (depth m)"
  note C = child_node_cost[OF 1(3)]
  have L: "\<forall>m\<in>set (case l of None \<Rightarrow> []
                     | Some a \<Rightarrow> visit_pushed ?f g limit a (child_node ?f n a)). ?Q m"
  proof (cases l)
    case None
    show ?thesis unfolding None by simp
  next
    case (Some a)
    show ?thesis unfolding Some option.case by (rule 1(1)[OF Some C])
  qed
  have R: "\<forall>m\<in>set (case r of None \<Rightarrow> []
                     | Some b \<Rightarrow> visit_pushed ?f g limit b (child_node ?f n b)). ?Q m"
  proof (cases r)
    case None
    show ?thesis unfolding None by simp
  next
    case (Some b)
    show ?thesis unfolding Some option.case by (rule 1(2)[OF Some C])
  qed
  have K: "\<forall>m\<in>child_node ?f n ` set (children (BinaryTreeNode v l r)). ?Q m"
    using C by blast
  from visit_pushed_subset[of ?f g limit v l r n] L R K show ?case
    by blast
qed

text \<open>
  C6 does not hold for robot_vacuum_cleaner.py: its \<open>expand\<close>, applied to the root of the
  tree of \<open>main\<close> (path cost 0), yields children of path cost 0, which is neither the
  parent's path cost plus 1 nor the depth 1 of the children.
\<close>

theorem robot_path_cost_counterexample:
  "robot_expand \<lparr>initial = Tree example_tree, goal = Some 4\<rparr>
     (Node (Tree example_tree) None None 0) =
     Inr [Node (Tree (BinaryTreeNode 2 None (Some (BinaryTreeNode 4 None None))))
            (Some (Node (Tree example_tree) None None 0))
            (Some (BinaryTreeNode 2 None (Some (BinaryTreeNode 4 None None)))) 0,
          Node (Tree (BinaryTreeNode 3 (Some (BinaryTreeNode 5 None None)) None))
            (Some (Node (Tree example_tree) None None 0))
            (Some (BinaryTreeNode 3 (Some (BinaryTreeNode 5 None None)) None)) 0] \<and>
   path_cost (Node (Tree (BinaryTreeNode 2 None (Some (BinaryTreeNode 4 None None))))
            (Some (Node (Tree example_tree) None None 0))
            (Some (BinaryTreeNode 2 None (Some (BinaryTreeNode 4 None None)))) 0) \<noteq>
     path_cost (Node (Tree example_tree) None None 0) + 1 \<and>
   path_cost (Node (Tree (BinaryTreeNode 2 None (Some (BinaryTreeNode 4 None None))))
            (Some (Node (Tree example_tree) None None 0))
            (Some (BinaryTreeNode 2 None (Some (BinaryTreeNode 4 None None)))) 0) \<noteq>
     enat (depth (Node (Tree (BinaryTreeNode 2 None (Some (BinaryTreeNode 4 None None))))
            (Some (Node (Tree example_tree) None None 0))
            (Some (BinaryTreeNode 2 None (Some (BinaryTreeNode 4 None None)))) 0))"
  by (simp add: robot_expand_def RoomNavigationProblem_actions_def truthy_def
        problem_result_def example_tree_def enat_0_iff)

text \<open>
  C6, as the code has it. Every node that the \<open>expand\<close> of warehouse_management.py yields
  has the path cost of its parent plus 1 (and the depth of its parent plus 1), so every
  node that its \<open>depth_limited_search\<close> pushes has a path cost equal to its depth. The
  \<open>expand\<close> of robot_vacuum_cleaner.py and of investment_management.py do not pass a path
  cost: every node they yield has the default path cost 0.
\<close>

theorem warehouse_path_cost_is_depth:
  "(warehouse_expand problem node = Inr cs \<longrightarrow>
      (\<forall>c\<in>set cs. path_cost c = path_cost node + 1 \<and> depth c = depth node + 1)) \<and>
   (robot_expand problem node = Inr cs \<longrightarrow> (\<forall>c\<in>set cs. path_cost c = 0)) \<and>
   (investment_expand q qnode = Inr qcs \<longrightarrow> (\<forall>c\<in>set qcs. path_cost c = 0)) \<and>
   (\<exists>r pushed popped.
      warehouse_search_trace \<lparr>initial = Tree t, goal = g\<rparr> limit = Some (r, pushed, popped) \<and>
      (\<forall>n\<in>set pushed. path_cost n = enat (depth n)))"
proof (intro conjI impI)
  assume "warehouse_expand problem node = Inr cs"
  then show "\<forall>c\<in>set cs. path_cost c = path_cost node + 1 \<and> depth c = depth node + 1"
    by (auto simp: warehouse_expand_def split: sum.splits)
next
  assume "robot_expand problem node = Inr cs"
  then show "\<forall>c\<in>set cs. path_cost c = 0"
    by (auto simp: robot_expand_def split: sum.splits)
next
  assume "investment_expand q qnode = Inr qcs"
  then show "\<forall>c\<in>set qcs. path_cost c = 0"
    by (auto simp: investment_expand_def split: sum.splits)
next
  let ?root = "Node (Tree t) None None 0"
  let ?f = "\<lambda>n. path_cost n + 1"
  have c0: "path_cost ?root = enat (depth ?root)"
    by (simp add: enat_0_iff)
  note vc = visit_pushed_cost[OF c0, of g limit t]
  have c: "\<forall>n\<in>set (?root # visit_pushed ?f g limit t ?root). path_cost n = enat (depth n)"
    unfolding list.set using c0 vc by blast
  have w: "warehouse_search_trace \<lparr>initial = Tree t, goal = g\<rparr> limit =
      Some (Inr (case visit ?f g limit t ?root of
                   Found m \<Rightarrow> m | Exhausted \<Rightarrow> failure | Cut \<Rightarrow> cutoff),
            ?root # visit_pushed ?f g limit t ?root, visit_popped ?f g limit t ?root)"
    by (simp add: warehouse_search_trace_def warehouse_trace_root)
  from w c show "\<exists>r pushed popped.
      warehouse_search_trace \<lparr>initial = Tree t, goal = g\<rparr> limit = Some (r, pushed, popped) \<and>
      (\<forall>n\<in>set pushed. path_cost n = enat (depth n))"
    by (intro exI conjI)
qed

theorem warehouse_path_cost_is_depth_witness:
  "warehouse_expand \<lparr>initial = Tree example_tree, goal = Some 4\<rparr>
     (Node (Tree example_tree) None None 0) =
     Inr [Node (Tree (BinaryTreeNode 2 None (Some (BinaryTreeNode 4 None None))))
            (Some (Node (Tree example_tree) None None 0))
            (Some (BinaryTreeNode 2 None (Some (BinaryTreeNode 4 None None)))) 1,
          Node (Tree (BinaryTreeNode 3 (Some (BinaryTreeNode 5 None None)) None))
            (Some (Node (Tree example_tree) None None 0))
            (Some (BinaryTreeNode 3 (Some (BinaryTreeNode 5 None None)) None)) 1] \<and>
   list_all (\<lambda>c. path_cost c = path_cost (Node (Tree example_tree) None None 0) + 1 \<and>
                  depth c = depth (Node (Tree example_tree) None None 0) + 1)
     [Node (Tree (BinaryTreeNode 2 None (Some (BinaryTreeNode 4 None None))))
            (Some (Node (Tree example_tree) None None 0))
            (Some (BinaryTreeNode 2 None (Some (BinaryTreeNode 4 None None)))) 1,
          Node (Tree (BinaryTreeNode 3 (Some (BinaryTreeNode 5 None None)) None))
            (Some (Node (Tree example_tree) None None 0))
            (Some (BinaryTreeNode 3 (Some (BinaryTreeNode 5 None None)) None)) 1]"
proof -
  let ?P = "\<lparr>initial = Tree example_tree, goal = Some 4\<rparr>"
  let ?root = "Node (Tree example_tree) None None 0"
  let ?cs = "[Node (Tree (BinaryTreeNode 2 None (Some (BinaryTreeNode 4 None None))))
            (Some (Node (Tree example_tree) None None 0))
            (Some (BinaryTreeNode 2 None (Some (BinaryTreeNode 4 None None)))) 1,
          Node (Tree (BinaryTreeNode 3 (Some (BinaryTreeNode 5 None None)) None))
            (Some (Node (Tree example_tree) None None 0))
            (Some (BinaryTreeNode 3 (Some (BinaryTreeNode 5 None None)) None)) 1]"
  have e: "warehouse_expand ?P ?root = Inr ?cs"
    by (simp add: warehouse_expand_def WarehouseProblem_actions_def
          problem_result_def example_tree_def)
  from warehouse_path_cost_is_depth[of ?P ?root ?cs, THEN conjunct1] e
  have "\<forall>c\<in>set ?cs. path_cost c = path_cost ?root + 1 \<and> depth c = depth ?root + 1"
    by (rule mp)
  then have "list_all (\<lambda>c. path_cost c = path_cost ?root + 1 \<and> depth c = depth ?root + 1) ?cs"
    unfolding list_all_iff .
  with e show ?thesis by (rule conjI)
qed

section \<open>The maximum within the limit\<close>

lemma set_visit_order: "set (visit_order k t) = set (nodes_within k t)"
proof (induction t arbitrary: k rule: tree_nodes.induct)
  case (1 v l r)
  have L: "set (case l of None \<Rightarrow> [] | Some a \<Rightarrow> visit_order (k - 1) a) =
           set (case l of None \<Rightarrow> [] | Some a \<Rightarrow> nodes_within (k - 1) a)"
    using 1(1) by (cases l) simp_all
  have R: "set (case r of None \<Rightarrow> [] | Some b \<Rightarrow> visit_order (k - 1) b) =
           set (case r of None \<Rightarrow> [] | Some b \<Rightarrow> nodes_within (k - 1) b)"
    using 1(2) by (cases r) simp_all
  from L R show ?case by (simp add: Un_commute)
qed

lemma visit_order_map:
  "visit_order k (map_BinaryTreeNode f t) = map (map_BinaryTreeNode f) (visit_order k t)"
proof (induction t arbitrary: k rule: tree_nodes.induct)
  case (1 v l r)
  have L: "(case map_option (map_BinaryTreeNode f) l of None \<Rightarrow> []
            | Some a \<Rightarrow> visit_order (k - 1) a) =
           map (map_BinaryTreeNode f) (case l of None \<Rightarrow> [] | Some a \<Rightarrow> visit_order (k - 1) a)"
    using 1(1) by (cases l) simp_all
  have R: "(case map_option (map_BinaryTreeNode f) r of None \<Rightarrow> []
            | Some b \<Rightarrow> visit_order (k - 1) b) =
           map (map_BinaryTreeNode f) (case r of None \<Rightarrow> [] | Some b \<Rightarrow> visit_order (k - 1) b)"
    using 1(2) by (cases r) simp_all
  from L R show ?case by simp
qed

lemma visit_order_not_empty: "visit_order k t \<noteq> []"
  by (cases t) simp

lemma update_max_MinusInf_iff:
  "(update_max m v = MinusInf) = (m = MinusInf \<and> (v = MinusInf \<or> v = NaN))"
  by (cases m; cases v) (simp_all add: update_max_def)

lemma foldl_update_max_MinusInf_iff:
  "(foldl update_max m vs = MinusInf) =
   (m = MinusInf \<and> (\<forall>v\<in>set vs. v = MinusInf \<or> v = NaN))"
  by (induction vs arbitrary: m) (auto simp: update_max_MinusInf_iff)

lemma foldl_update_max_Number:
  "foldl update_max (Number x) (map Number ys) = Number (fold max ys x)"
  by (induction ys arbitrary: x) (simp_all add: update_max_def max_def)

lemma foldl_update_max_integers:
  "ys \<noteq> [] \<Longrightarrow> foldl update_max MinusInf (map Number ys) = Number (Max (set ys))"
  by (cases ys) (simp_all add: update_max_def foldl_update_max_Number Max.set_eq_fold[symmetric])

lemma max_search_none_iff:
  "initial problem = Tree t \<Longrightarrow>
   (depth_limited_search_max problem limit = Some (Inr None)) =
   (\<forall>s\<in>set (nodes_within (nat limit) t). node_value s = MinusInf \<or> node_value s = NaN)"
  by (simp add: max_search_tree foldl_update_max_MinusInf_iff set_visit_order)

lemma max_search_integers:
  "depth_limited_search_max \<lparr>initial = Tree (map_BinaryTreeNode Number t)\<rparr> limit =
     Some (Inr (Some (Number (Max (node_value ` set (nodes_within (nat limit) t))))))"
proof -
  let ?ys = "map node_value (visit_order (nat limit) t)"
  have m: "map node_value (visit_order (nat limit) (map_BinaryTreeNode Number t)) =
           map Number ?ys"
    by (simp add: visit_order_map BinaryTreeNode.map_sel)
  have ne: "?ys \<noteq> []" by (simp add: visit_order_not_empty)
  have s: "set ?ys = node_value ` set (nodes_within (nat limit) t)"
    by (simp add: set_visit_order)
  have "foldl update_max MinusInf (map Number ?ys) = Number (Max (set ?ys))"
    using ne by (rule foldl_update_max_integers)
  then show ?thesis
    by (simp add: max_search_tree m set_visit_order)
qed

lemma investment_example:
  "depth_limited_search_max \<lparr>initial = Tree investment_tree\<rparr> 2 = Some (Inr (Some (Number 6)))"
  by (simp add: max_search_tree investment_tree_def update_max_def)

lemma visit_pushed_states:
  "state n = Tree t \<Longrightarrow>
   insert (Tree t) (state ` set (visit_pushed f None limit t n)) =
   Tree ` set (nodes_within (nat (limit - int (depth n))) t)"
proof (induction t arbitrary: n rule: tree_nodes.induct)
  case (1 v l r)
  let ?k = "nat (limit - int (depth n))"
  show ?case
  proof (cases "limit \<le> int (depth n)")
    case True
    then show ?thesis by simp
  next
    case False
    then have k: "?k \<noteq> 0" by simp
    have kk: "nat (limit - int (depth (child_node f n c))) = ?k - 1" for c
      using False by (simp add: depth_child_node)
    have L: "state ` set (map (child_node f n) (case l of None \<Rightarrow> [] | Some a \<Rightarrow> [a])) \<union>
             state ` set (case l of None \<Rightarrow> []
                          | Some a \<Rightarrow> visit_pushed f None limit a (child_node f n a)) =
             Tree ` set (case l of None \<Rightarrow> [] | Some a \<Rightarrow> nodes_within (?k - 1) a)"
    proof (cases l)
      case None
      then show ?thesis by simp
    next
      case (Some a)
      from 1(1)[OF Some state_child_node, of f n] Some show ?thesis
        by (simp add: kk state_child_node)
    qed
    have R: "state ` set (map (child_node f n) (case r of None \<Rightarrow> [] | Some b \<Rightarrow> [b])) \<union>
             state ` set (case r of None \<Rightarrow> []
                          | Some b \<Rightarrow> visit_pushed f None limit b (child_node f n b)) =
             Tree ` set (case r of None \<Rightarrow> [] | Some b \<Rightarrow> nodes_within (?k - 1) b)"
    proof (cases r)
      case None
      then show ?thesis by simp
    next
      case (Some b)
      from 1(2)[OF Some state_child_node, of f n] Some show ?thesis
        by (simp add: kk state_child_node)
    qed
    have "state ` set (visit_pushed f None limit (BinaryTreeNode v l r) n) =
          (state ` set (map (child_node f n) (case l of None \<Rightarrow> [] | Some a \<Rightarrow> [a])) \<union>
           state ` set (case l of None \<Rightarrow> []
                          | Some a \<Rightarrow> visit_pushed f None limit a (child_node f n a))) \<union>
          (state ` set (map (child_node f n) (case r of None \<Rightarrow> [] | Some b \<Rightarrow> [b])) \<union>
           state ` set (case r of None \<Rightarrow> []
                          | Some b \<Rightarrow> visit_pushed f None limit b (child_node f n b)))"
      using False by (cases l; cases r) (auto simp: children_def visit_no_goal)
    then show ?thesis
      unfolding L R using k by (simp add: image_Un)
  qed
qed

lemma max_search_pushed_states:
  "\<exists>r pushed.
     max_search_trace \<lparr>initial = Tree t\<rparr> limit = Some (r, pushed) \<and>
     state ` set pushed = Tree ` set (nodes_within (nat limit) t)"
proof -
  let ?root = "Node (Tree t) None None 0"
  have m: "max_search_trace \<lparr>initial = Tree t\<rparr> limit =
      Some (Inr (foldl update_max MinusInf (map node_value (visit_order (nat limit) t))),
            ?root # visit_pushed (\<lambda>n. 0) None limit t ?root)"
    by (simp add: max_search_trace_def max_trace_root)
  have s: "state ` set (?root # visit_pushed (\<lambda>n. 0) None limit t ?root) =
           Tree ` set (nodes_within (nat limit) t)"
    using visit_pushed_states[of ?root t "\<lambda>n. 0" limit] by simp
  from m s show ?thesis by (intro exI conjI)
qed

text \<open>
  C3. \<open>depth_limited_search_max\<close> returns \<open>None\<close> for a problem without initial state, and on
  every tree of integer payloads it returns the greatest payload among the nodes at depth
  at most \<open>limit\<close> (a negative limit counts as 0). But on the tree that is a single node
  with payload \<open>-math.inf\<close> it returns \<open>None\<close> as well, for every limit: the payload never
  compares greater than the initial \<open>max_value\<close>, and the final test
  \<open>max_value == -math.inf\<close> takes the tree for an empty one, where the maximum payload of
  the tree is \<open>-math.inf\<close>.
\<close>

theorem max_none_on_minus_inf_tree:
  "depth_limited_search_max \<lparr>initial = PyNone\<rparr> limit = Some (Inr None) \<and>
   depth_limited_search_max \<lparr>initial = Tree (BinaryTreeNode MinusInf None None)\<rparr> limit =
     Some (Inr None) \<and>
   depth_limited_search_max \<lparr>initial = Tree (map_BinaryTreeNode Number t)\<rparr> limit =
     Some (Inr (Some (Number (Max (node_value ` set (nodes_within (nat limit) t))))))"
proof (intro conjI)
  show "depth_limited_search_max \<lparr>initial = PyNone\<rparr> limit = Some (Inr None)"
    by (simp add: depth_limited_search_max_def)
next
  show "depth_limited_search_max \<lparr>initial = Tree (BinaryTreeNode MinusInf None None)\<rparr> limit =
     Some (Inr None)"
    by (simp add: max_search_tree update_max_def)
next
  show "depth_limited_search_max \<lparr>initial = Tree (map_BinaryTreeNode Number t)\<rparr> limit =
     Some (Inr (Some (Number (Max (node_value ` set (nodes_within (nat limit) t))))))"
    by (rule max_search_integers)
qed

end
